theory Spec2Isabelle
  imports Main
begin

section \<open>Values shared by the metric proxies\<close>

text \<open>
  Go's \<open>error\<close> is an interface value: \<open>nil\<close> or a non-nil error. It is modelled as
  \<open>error option\<close> with \<open>None\<close> for \<open>nil\<close>. The package-level sentinel errors keep their
  names; an error produced by \<open>os/exec\<close> or by the exposition decoder is \<open>ExternalError\<close>
  with its message.
\<close>

datatype error =
    ErrScrapeTimeoutBeforeExecFinished
  | ErrNameFieldOverrideAttempted
  | ErrFileProxyScrapeError
  | ErrUnknownExporterType
  | ErrExporterNameUsedTwice
  | ExternalError string

text \<open>A run-time panic of the Go program. An unrecovered panic in any goroutine ends the process.\<close>

datatype panic = NilDereference | TypeAssertionFailed

text \<open>
  \<open>[]*dto.MetricFamily\<close>: a slice of pointers. A pointer is the address of the family it
  points to; the \<open>nil\<close> slice is \<open>None\<close>.
\<close>

type_synonym family_ptr = nat
type_synonym family_slice = "family_ptr list option"

text \<open>\<open>e.Error()\<close> on an interface value: calling the method on \<open>nil\<close> panics.\<close>

fun error_message :: "error \<Rightarrow> string" where
  "error_message ErrScrapeTimeoutBeforeExecFinished = ''scrape timed out before exec finished''"
| "error_message ErrNameFieldOverrideAttempted = ''cannot override name field with additional labels''"
| "error_message ErrFileProxyScrapeError = ''file proxy file read failed''"
| "error_message ErrUnknownExporterType = ''cannot configure unknown exporter type''"
| "error_message ErrExporterNameUsedTwice = ''cannot use the same exporter name twice for one endpoint''"
| "error_message (ExternalError m) = m"

fun Error :: "error option \<Rightarrow> panic + string" where
  "Error None = Inl NilDereference"
| "Error (Some e) = Inr (error_message e)"

section \<open>One run of the metric script\<close>

text \<open>
  What the operating system and the decoder answer during one run of the script:
  the error of \<open>cmd.StdoutPipe()\<close>, the error of \<open>cmd.Start()\<close>, the pair returned by
  \<open>decodeMetrics(outRdr, expfmt.FmtText)\<close> and the error of \<open>cmd.Process.Kill()\<close>.
\<close>

record script_run =
  stdoutPipe_ret :: "error option"
  start_ret :: "error option"
  decodeMetrics_ret :: "family_slice \<times> error option"
  kill_ret :: "error option"

text \<open>The calls a run makes on the subprocess, in order, and the lines it logs.\<close>

datatype event =
    CallStdoutPipe
  | CallStart
  | CallDecodeMetrics
  | CallKill
  | LogError string string
  | LockW
  | UnlockW
  | LockR
  | UnlockR
  | StoreLastResult family_slice
  | CloseReady

text \<open>\<open>log.With("error", e.Error()).Errorln(msg)\<close>: evaluates \<open>e.Error()\<close> first.\<close>

definition log_error :: "error option \<Rightarrow> string \<Rightarrow> panic + event list" where
  "log_error e msg = (case Error e of Inl p \<Rightarrow> Inl p | Inr m \<Rightarrow> Inr [LogError m msg])"

section \<open>execProxy.doExec\<close>

record execProxyScrapeResult =
  mfs :: family_slice
  err :: "error option"

text \<open>
  \<open>doExec\<close> returns the calls made so far and either the panic that ended it or the
  result struct it returns.
\<close>

definition doExec :: "script_run \<Rightarrow> event list \<times> (panic + execProxyScrapeResult)" where
  "doExec run =
    (case stdoutPipe_ret run of
       Some perr \<Rightarrow>
         (case log_error (Some perr) ''Error opening stdout pipe to metric script'' of
            Inl p \<Rightarrow> ([CallStdoutPipe], Inl p)
          | Inr l \<Rightarrow> ([CallStdoutPipe] @ l, Inr \<lparr>mfs = None, err = Some perr\<rparr>))
     | None \<Rightarrow>
    (case start_ret run of
       Some e \<Rightarrow>
         (case log_error (Some e) ''Error starting metric script'' of
            Inl p \<Rightarrow> ([CallStdoutPipe, CallStart], Inl p)
          | Inr l \<Rightarrow> ([CallStdoutPipe, CallStart] @ l, Inr \<lparr>mfs = None, err = Some e\<rparr>))
     | None \<Rightarrow>
    (case decodeMetrics_ret run of (m, derr) \<Rightarrow>
    (case kill_ret run of
       Some e \<Rightarrow>
         (case log_error derr ''Error sending kill signal to subprocess'' of
            Inl p \<Rightarrow> ([CallStdoutPipe, CallStart, CallDecodeMetrics, CallKill], Inl p)
          | Inr l \<Rightarrow> ([CallStdoutPipe, CallStart, CallDecodeMetrics, CallKill] @ l,
                     Inr \<lparr>mfs = None, err = Some e\<rparr>))
     | None \<Rightarrow>
    (case derr of
       Some d \<Rightarrow>
         (case log_error (Some d) ''Metric decoding from script output failed'' of
            Inl p \<Rightarrow> ([CallStdoutPipe, CallStart, CallDecodeMetrics, CallKill], Inl p)
          | Inr l \<Rightarrow> ([CallStdoutPipe, CallStart, CallDecodeMetrics, CallKill] @ l,
                     Inr \<lparr>mfs = None, err = Some d\<rparr>))
     | None \<Rightarrow>
         ([CallStdoutPipe, CallStart, CallDecodeMetrics, CallKill],
          Inr \<lparr>mfs = m, err = None\<rparr>))))))"

section \<open>execCachingProxy\<close>

text \<open>
  The fields of \<open>execCachingProxy\<close> that change, and the worker's local \<open>rdyCh\<close>:
  \<open>ready_closed\<close> says that the channel behind \<open>resultReadyCh\<close> has been closed,
  \<open>rdyCh_nil\<close> that the worker has set its own \<open>rdyCh\<close> to \<open>nil\<close>.
\<close>

record execCachingProxy =
  lastExec :: nat
  lastResult :: family_slice
  ready_closed :: bool
  rdyCh_nil :: bool

text \<open>\<open>newExecCachingProxy\<close>: an empty, non-nil cache; the zero time; an open channel.\<close>

definition newExecCachingProxy :: execCachingProxy where
  "newExecCachingProxy = \<lparr>lastExec = 0, lastResult = Some [], ready_closed = False, rdyCh_nil = False\<rparr>"

text \<open>
  One iteration of the loop of \<open>execCachingProxy.execer\<close>, after the wait for the next
  interval: \<open>now\<close> is the value of \<open>time.Now()\<close>. The result is the events of the
  iteration and either the panic that ends the process or the proxy at the next iteration.
\<close>

definition execCachingProxy_execer_iteration ::
  "nat \<Rightarrow> script_run \<Rightarrow> execCachingProxy \<Rightarrow> event list \<times> (panic + execCachingProxy)" where
  "execCachingProxy_execer_iteration now run ecp0 =
    (let ecp = ecp0\<lparr>lastExec := now\<rparr> in
    (case stdoutPipe_ret run of
       Some perr \<Rightarrow>
         (case log_error (Some perr) ''Error opening stdout pipe to metric script'' of
            Inl p \<Rightarrow> ([CallStdoutPipe], Inl p)
          | Inr l \<Rightarrow> ([CallStdoutPipe] @ l, Inr ecp))
     | None \<Rightarrow>
    (case start_ret run of
       Some e \<Rightarrow>
         (case log_error (Some e) ''Error starting metric script'' of
            Inl p \<Rightarrow> ([CallStdoutPipe, CallStart], Inl p)
          | Inr l \<Rightarrow> ([CallStdoutPipe, CallStart] @ l, Inr ecp))
     | None \<Rightarrow>
    (case decodeMetrics_ret run of (m, derr) \<Rightarrow>
    (case (case kill_ret run of
             Some e \<Rightarrow> log_error derr ''Error sending kill signal to subprocess''
           | None \<Rightarrow> Inr []) of
       Inl p \<Rightarrow> ([CallStdoutPipe, CallStart, CallDecodeMetrics, CallKill], Inl p)
     | Inr lk \<Rightarrow>
    (case derr of
       Some d \<Rightarrow>
         (case log_error (Some d) ''Metric decoding from script output failed'' of
            Inl p \<Rightarrow> ([CallStdoutPipe, CallStart, CallDecodeMetrics, CallKill] @ lk, Inl p)
          | Inr l \<Rightarrow> ([CallStdoutPipe, CallStart, CallDecodeMetrics, CallKill] @ lk @ l, Inr ecp))
     | None \<Rightarrow>
         ([CallStdoutPipe, CallStart, CallDecodeMetrics, CallKill] @ lk @
          [LockW, StoreLastResult m] @ (if rdyCh_nil ecp then [] else [CloseReady]) @ [UnlockW],
          Inr (if rdyCh_nil ecp then ecp\<lparr>lastResult := m\<rparr>
               else ecp\<lparr>lastResult := m, ready_closed := True, rdyCh_nil := True\<rparr>))))))))"

text \<open>
  The loop \<open>for { ... }\<close> never ends by itself: the worker is observed over the finite
  list of iterations it has made so far, each with its time and its run of the script.
  A panic ends it.
\<close>

fun execCachingProxy_execer :: "(nat \<times> script_run) list \<Rightarrow> execCachingProxy \<Rightarrow> panic + execCachingProxy" where
  "execCachingProxy_execer [] ecp = Inr ecp"
| "execCachingProxy_execer ((now, run) # rest) ecp =
    (case snd (execCachingProxy_execer_iteration now run ecp) of
       Inl p \<Rightarrow> Inl p
     | Inr ecp' \<Rightarrow> execCachingProxy_execer rest ecp')"

text \<open>The events of each iteration the worker has made, the last one being the one that panicked, if any.\<close>

fun execCachingProxy_execer_events :: "(nat \<times> script_run) list \<Rightarrow> execCachingProxy \<Rightarrow> event list list" where
  "execCachingProxy_execer_events [] ecp = []"
| "execCachingProxy_execer_events ((now, run) # rest) ecp =
    (case execCachingProxy_execer_iteration now run ecp of
       (ev, Inl p) \<Rightarrow> [ev]
     | (ev, Inr ecp') \<Rightarrow> ev # execCachingProxy_execer_events rest ecp')"

text \<open>The outcomes of one run of the script, as the worker tells them apart.\<close>

definition run_succeeds :: "script_run \<Rightarrow> bool" where
  "run_succeeds run \<longleftrightarrow>
     stdoutPipe_ret run = None \<and> start_ret run = None \<and>
     snd (decodeMetrics_ret run) = None \<and> kill_ret run = None"

definition run_fails_early :: "script_run \<Rightarrow> bool" where
  "run_fails_early run \<longleftrightarrow>
     stdoutPipe_ret run \<noteq> None \<or> start_ret run \<noteq> None \<or> snd (decodeMetrics_ret run) \<noteq> None"

definition kill_fails_after_decode :: "script_run \<Rightarrow> bool" where
  "kill_fails_after_decode run \<longleftrightarrow>
     stdoutPipe_ret run = None \<and> start_ret run = None \<and>
     snd (decodeMetrics_ret run) = None \<and> kill_ret run \<noteq> None"

subsection \<open>execCachingProxy.Scrape\<close>

text \<open>
  The \<open>select\<close> of \<open>Scrape\<close> has two receive cases. A receive from the closed
  \<open>resultReadyCh\<close> is ready, a receive from \<open>ctx.Done()\<close> is ready once the context is
  cancelled. With no case ready the goroutine stays blocked (\<open>None\<close>); with both ready the
  runtime picks one, the choice being the parameter \<open>pick\<close>.
\<close>

datatype select_case = ResultReady | ContextDone

definition execCachingProxy_Scrape_select :: "select_case \<Rightarrow> bool \<Rightarrow> execCachingProxy \<Rightarrow> select_case option" where
  "execCachingProxy_Scrape_select pick ctx_done ecp =
    (if ready_closed ecp \<and> ctx_done then Some pick
     else if ready_closed ecp then Some ResultReady
     else if ctx_done then Some ContextDone
     else None)"

text \<open>
  \<open>Scrape\<close> sees the proxy twice: at the \<open>select\<close>, and later when it holds the reader
  lock and reads \<open>lastResult\<close>. It returns its events and the pair of the Go function.
\<close>

definition execCachingProxy_Scrape ::
  "select_case \<Rightarrow> bool \<Rightarrow> execCachingProxy \<Rightarrow> execCachingProxy \<Rightarrow>
   (event list \<times> family_slice \<times> error option) option" where
  "execCachingProxy_Scrape pick ctx_done ecp_select ecp_read =
    (case execCachingProxy_Scrape_select pick ctx_done ecp_select of
       None \<Rightarrow> None
     | Some ContextDone \<Rightarrow> Some ([], Some [], Some ErrScrapeTimeoutBeforeExecFinished)
     | Some ResultReady \<Rightarrow> Some ([LockR, UnlockR], lastResult ecp_read, None))"

text \<open>The family pointers a returned slice holds.\<close>

definition families :: "family_slice \<Rightarrow> family_ptr set" where
  "families s = (case s of None \<Rightarrow> {} | Some ps \<Rightarrow> set ps)"

section \<open>NewMetricReverseProxy\<close>

text \<open>
  The configuration package is not part of the sources at hand; the fields below are the
  ones \<open>NewMetricReverseProxy\<close> and the proxy constructors read.
\<close>

record BaseExporter =
  Name :: string
  NoRewrite :: bool
  Labels :: "(string \<times> string) list"

text \<open>
  \<open>Labels\<close> is a Go map; the list gives its entries in the order in which the \<open>range\<close>
  loop of this call visits them.

  An element of \<open>exporter.Exporters\<close> is an interface value: one of the four configuration
  types of the type switch, some other type that implements \<open>config.BaseExporter\<close>, or a
  value that does not implement it, on which the type assertion panics.
\<close>

datatype exporter_config =
    FileExporterConfig BaseExporter string
  | ExecExporterConfig BaseExporter string "string list"
  | ExecCachingExporterConfig BaseExporter string "string list" nat
  | HTTPExporterConfig BaseExporter string nat bool
  | OtherExporterConfig BaseExporter
  | NotBaseExporter

fun GetBaseExporter :: "exporter_config \<Rightarrow> panic + BaseExporter" where
  "GetBaseExporter (FileExporterConfig b _) = Inr b"
| "GetBaseExporter (ExecExporterConfig b _ _) = Inr b"
| "GetBaseExporter (ExecCachingExporterConfig b _ _ _) = Inr b"
| "GetBaseExporter (HTTPExporterConfig b _ _ _) = Inr b"
| "GetBaseExporter (OtherExporterConfig b) = Inr b"
| "GetBaseExporter NotBaseExporter = Inl TypeAssertionFailed"

datatype AuthType = AuthTypeNone | AuthTypeBasic | AuthTypeOther string

record ReverseExporter =
  Path :: string
  Exporters :: "exporter_config list"
  Auth :: AuthType
  HtPasswdFile :: string

text \<open>
  Modelled from the spec: the constant \<open>reverseProxyNameLabel\<close> is declared in a file of
  the package that is not at hand; the spec gives its value, \<open>exported_instance\<close>.
\<close>

definition reverseProxyNameLabel :: string where
  "reverseProxyNameLabel = ''exported_instance''"

datatype MetricProxy =
    FileProxy string
  | ExecProxy string "string list"
  | ExecCachingProxy string "string list" nat
  | NetProxy string nat bool
  | RewriteProxy MetricProxy "(string \<times> string) list"

text \<open>
  A \<open>model.LabelSet\<close> is a Go map. It is kept as the association list of its entries in
  the order of their first assignment, an assignment to a present key replacing its value.
\<close>

fun set_label :: "string \<Rightarrow> string \<Rightarrow> (string \<times> string) list \<Rightarrow> (string \<times> string) list" where
  "set_label k v [] = [(k, v)]"
| "set_label k v ((k', v') # rest) =
    (if k' = k then (k, v) # rest else (k', v') # set_label k v rest)"

datatype handler = serveMetricsHTTP | basicAuthWrapped string

record ReverseProxyEndpoint =
  metricPath :: string
  backends :: "MetricProxy list"
  handler_of :: handler

text \<open>The type switch on the exporter: the proxy it makes, or \<open>None\<close> in its \<open>default\<close> case.\<close>

fun new_exporter :: "exporter_config \<Rightarrow> MetricProxy option" where
  "new_exporter (FileExporterConfig b path) = Some (FileProxy path)"
| "new_exporter (ExecExporterConfig b cmd args) = Some (ExecProxy cmd args)"
| "new_exporter (ExecCachingExporterConfig b cmd args interval) = Some (ExecCachingProxy cmd args interval)"
| "new_exporter (HTTPExporterConfig b address timeout fwd) = Some (NetProxy address timeout fwd)"
| "new_exporter (OtherExporterConfig b) = None"
| "new_exporter NotBaseExporter = None"

text \<open>The loop \<open>for k, v := range baseExporter.Labels\<close>.\<close>

fun set_additional_labels ::
  "(string \<times> string) list \<Rightarrow> (string \<times> string) list \<Rightarrow> error + (string \<times> string) list" where
  "set_additional_labels [] labels = Inr labels"
| "set_additional_labels ((k, v) # rest) labels =
    (if k = reverseProxyNameLabel then Inl ErrNameFieldOverrideAttempted
     else set_additional_labels rest (set_label k v labels))"

text \<open>
  The loop over \<open>exporter.Exporters\<close>, with the set \<open>usedNames\<close> and the backends added so
  far. It ends in a panic, in the error of an early \<open>return nil, err\<close>, or in the backends.
\<close>

fun add_backends ::
  "exporter_config list \<Rightarrow> string set \<Rightarrow> MetricProxy list \<Rightarrow> panic + (error + MetricProxy list)" where
  "add_backends [] usedNames bs = Inr (Inr bs)"
| "add_backends (exporter # rest) usedNames bs =
    (case GetBaseExporter exporter of
       Inl p \<Rightarrow> Inl p
     | Inr baseExporter \<Rightarrow>
    (case new_exporter exporter of
       None \<Rightarrow> Inr (Inl ErrUnknownExporterType)
     | Some newExporter \<Rightarrow>
    (if Name baseExporter \<in> usedNames then Inr (Inl ErrExporterNameUsedTwice)
     else
    (case set_additional_labels (Labels baseExporter)
            (if \<not> NoRewrite baseExporter then [(reverseProxyNameLabel, Name baseExporter)] else []) of
       Inl e \<Rightarrow> Inr (Inl e)
     | Inr labels \<Rightarrow>
         add_backends rest (insert (Name baseExporter) usedNames)
           (bs @ [RewriteProxy newExporter labels])))))"

text \<open>
  \<open>NewMetricReverseProxy\<close> returns the pair \<open>(http.Handler, error)\<close>; \<open>None\<close> is \<open>nil\<close>.
\<close>

definition NewMetricReverseProxy ::
  "ReverseExporter \<Rightarrow> panic + (ReverseProxyEndpoint option \<times> error option)" where
  "NewMetricReverseProxy exporter =
    (case add_backends (Exporters exporter) {} [] of
       Inl p \<Rightarrow> Inl p
     | Inr (Inl e) \<Rightarrow> Inr (None, Some e)
     | Inr (Inr bs) \<Rightarrow>
         Inr (Some \<lparr>metricPath = Path exporter, backends = bs,
                    handler_of = (case Auth exporter of
                                    AuthTypeBasic \<Rightarrow> basicAuthWrapped (HtPasswdFile exporter)
                                  | _ \<Rightarrow> serveMetricsHTTP)\<rparr>,
              None))"

text \<open>The names of the backends of a configuration, and whether a backend sets the reserved label.\<close>

fun exporter_name :: "exporter_config \<Rightarrow> string option" where
  "exporter_name e = (case GetBaseExporter e of Inl _ \<Rightarrow> None | Inr b \<Rightarrow> Some (Name b))"

fun overrides_name_label :: "exporter_config \<Rightarrow> bool" where
  "overrides_name_label e =
    (case GetBaseExporter e of Inl _ \<Rightarrow> False | Inr b \<Rightarrow> reverseProxyNameLabel \<in> fst ` set (Labels b))"

fun known_exporter :: "exporter_config \<Rightarrow> bool" where
  "known_exporter e = (new_exporter e \<noteq> None)"

section \<open>execProxy: the worker and the scrapes as interleaved goroutines\<close>

text \<open>
  The worker goroutine \<open>execProxy.execer\<close> and the goroutines that call
  \<open>execProxy.Scrape\<close> run interleaved. Each is cut at the points where it can block or
  where another goroutine can see what it did; a step of the system is one goroutine moving
  from one such point to the next.

  The \<open>n\<close>-th call of \<open>Scrape\<close> is caller \<open>n\<close>; the channel \<open>scrapeCh\<close> it makes is
  channel \<open>n\<close>, so \<open>waitingScrapes\<close>, a Go map used as a set of channels, is a set of
  callers. Line numbers are those of the source file that declares \<open>execProxy\<close>.
\<close>

datatype goroutine = Worker | Caller nat

text \<open>
  Where the worker is in \<open>execer\<close>:
  \<^item> \<open>W_Start\<close>: at the top of the loop, before the receive of line 119 has parked it
    (also where the goroutine is when \<open>newExecProxy\<close> has just launched it);
  \<^item> \<open>W_Recv\<close>: parked in \<open><-reqCh\<close>;
  \<^item> \<open>W_Lock1\<close>: woken, before \<open>Lock\<close> of line 122;
  \<^item> \<open>W_Locked1\<close>: holding the mutex, lines 123 and 124;
  \<^item> \<open>W_Exec\<close>: before \<open>doExec\<close> of line 131;
  \<^item> \<open>W_Lock2\<close>: before \<open>Lock\<close> of line 134;
  \<^item> \<open>W_Range\<close>: holding the mutex, between two iterations of the \<open>range\<close> loop of line 137;
  \<^item> \<open>W_Send\<close>: holding the mutex, blocked in \<open>ch <- result\<close> of line 138.
\<close>

datatype worker_pc = W_Start | W_Recv | W_Lock1 | W_Locked1 | W_Exec | W_Lock2 | W_Range | W_Send

text \<open>
  Where a caller is in \<open>Scrape\<close>:
  \<^item> \<open>C_Lock1\<close>: before \<open>Lock\<close> of line 150;
  \<^item> \<open>C_Locked1\<close>: holding the mutex, lines 151 to 153;
  \<^item> \<open>C_Nudge\<close>: before the \<open>select\<close> of line 156;
  \<^item> \<open>C_Wait\<close>: in the \<open>select\<close> of line 164;
  \<^item> \<open>C_Lock2\<close>: in the \<open>ctx.Done()\<close> case, before \<open>Lock\<close> of line 169;
  \<^item> \<open>C_Locked2\<close>: holding the mutex, lines 170 and 171;
  \<^item> \<open>C_Return\<close>: returned.
\<close>

datatype caller_pc = C_Lock1 | C_Locked1 | C_Nudge | C_Wait | C_Lock2 | C_Locked2 | C_Return

text \<open>
  The proxy and its goroutines. \<open>waitingMtx\<close> is \<open>None\<close> when unlocked and names its
  holder otherwise. \<open>result\<close>, \<open>todo\<close> and \<open>cur\<close> are the worker's locals: the pointer
  \<open>doExec\<close> returned, the channels the \<open>range\<close> loop has still to visit, and its \<open>ch\<close>.
  \<open>doExec\<close> allocates its result struct: \<open>heap\<close> holds the structs by address, and
  \<open>next_ptr\<close>, the next free address, is also the number of calls of \<open>doExec\<close> that have
  returned. \<open>received\<close> is the pointer a caller took from its channel, \<open>returned\<close> the pair
  its \<open>Scrape\<close> returned. \<open>crashed\<close>: a goroutine has panicked and the process is gone.
\<close>

record execProxy =
  waitingScrapes :: "nat set"
  waitingMtx :: "goroutine option"
  wpc :: worker_pc
  result :: nat
  todo :: "nat set"
  cur :: nat
  cpc :: "nat \<Rightarrow> caller_pc"
  ctx_cancelled :: "nat \<Rightarrow> bool"
  received :: "nat \<Rightarrow> nat option"
  returned :: "nat \<Rightarrow> (family_slice \<times> error option) option"
  heap :: "nat \<Rightarrow> execProxyScrapeResult option"
  next_ptr :: nat
  crashed :: bool

text \<open>\<open>newExecProxy\<close>: an empty map, an unlocked mutex, the worker launched, no \<open>Scrape\<close> begun.\<close>

definition newExecProxy :: execProxy where
  "newExecProxy =
    \<lparr>waitingScrapes = {}, waitingMtx = None, wpc = W_Start, result = 0, todo = {}, cur = 0,
     cpc = (\<lambda>_. C_Lock1), ctx_cancelled = (\<lambda>_. False), received = (\<lambda>_. None),
     returned = (\<lambda>_. None), heap = (\<lambda>_. None), next_ptr = 0, crashed = False\<rparr>"

text \<open>
  A step of the worker that needs nothing from outside. \<open>reqCh\<close> is unbuffered
  (\<open>make(chan struct{})\<close>), so the receive of line 119 parks the worker until a \<open>Scrape\<close>
  sends; \<open>Lock\<close> goes through when the mutex is free; lines 123 to 128 read the map, unlock
  and either go on to \<open>doExec\<close> or \<open>continue\<close>; after the \<open>range\<close> loop, lines 141 and 142
  replace the map and unlock.
\<close>

definition execProxy_execer_step :: "execProxy \<Rightarrow> execProxy option" where
  "execProxy_execer_step s =
    (case wpc s of
       W_Start \<Rightarrow> Some (s\<lparr>wpc := W_Recv\<rparr>)
     | W_Recv \<Rightarrow> None
     | W_Lock1 \<Rightarrow>
         (if waitingMtx s = None then Some (s\<lparr>waitingMtx := Some Worker, wpc := W_Locked1\<rparr>)
          else None)
     | W_Locked1 \<Rightarrow>
         Some (s\<lparr>waitingMtx := None,
                 wpc := (if waitingScrapes s \<noteq> {} then W_Exec else W_Start)\<rparr>)
     | W_Exec \<Rightarrow> None
     | W_Lock2 \<Rightarrow>
         (if waitingMtx s = None
          then Some (s\<lparr>waitingMtx := Some Worker, wpc := W_Range, todo := waitingScrapes s\<rparr>)
          else None)
     | W_Range \<Rightarrow>
         (if todo s = {}
          then Some (s\<lparr>waitingScrapes := {}, waitingMtx := None, wpc := W_Start\<rparr>)
          else None)
     | W_Send \<Rightarrow> None)"

text \<open>
  Line 131: \<open>doExec\<close> with the run of the script the outside provides. It returns the address
  of a new result struct, or panics.
\<close>

definition execProxy_execer_doExec :: "script_run \<Rightarrow> execProxy \<Rightarrow> execProxy option" where
  "execProxy_execer_doExec run s =
    (if wpc s = W_Exec then
       (case snd (doExec run) of
          Inl p \<Rightarrow> Some (s\<lparr>crashed := True\<rparr>)
        | Inr r \<Rightarrow>
            Some (s\<lparr>heap := (heap s)(next_ptr s := Some r), result := next_ptr s,
                    next_ptr := Suc (next_ptr s), wpc := W_Lock2\<rparr>))
     else None)"

text \<open>
  Line 137: the \<open>range\<close> loop takes a key it has not visited yet, in no specified order, and
  line 138 starts to send on it.
\<close>

definition execProxy_execer_range :: "nat \<Rightarrow> execProxy \<Rightarrow> execProxy option" where
  "execProxy_execer_range ch s =
    (if wpc s = W_Range \<and> ch \<in> todo s
     then Some (s\<lparr>wpc := W_Send, cur := ch, todo := todo s - {ch}\<rparr>)
     else None)"

text \<open>
  A step of caller \<open>i\<close> that needs nothing from outside. In the \<open>select\<close> of line 156 the send
  on the unbuffered \<open>execReqCh\<close> can proceed only if the worker is parked in its receive,
  which wakes it; otherwise the \<open>default\<close> case is taken and nothing is sent. Lines 170 to
  172 delete the channel, unlock and return the timeout error.
\<close>

definition execProxy_Scrape_step :: "nat \<Rightarrow> execProxy \<Rightarrow> execProxy option" where
  "execProxy_Scrape_step i s =
    (case cpc s i of
       C_Lock1 \<Rightarrow>
         (if waitingMtx s = None
          then Some (s\<lparr>waitingMtx := Some (Caller i), cpc := (cpc s)(i := C_Locked1)\<rparr>)
          else None)
     | C_Locked1 \<Rightarrow>
         Some (s\<lparr>waitingScrapes := insert i (waitingScrapes s), waitingMtx := None,
                 cpc := (cpc s)(i := C_Nudge)\<rparr>)
     | C_Nudge \<Rightarrow>
         (if wpc s = W_Recv then Some (s\<lparr>wpc := W_Lock1, cpc := (cpc s)(i := C_Wait)\<rparr>)
          else Some (s\<lparr>cpc := (cpc s)(i := C_Wait)\<rparr>))
     | C_Wait \<Rightarrow> None
     | C_Lock2 \<Rightarrow>
         (if waitingMtx s = None
          then Some (s\<lparr>waitingMtx := Some (Caller i), cpc := (cpc s)(i := C_Locked2)\<rparr>)
          else None)
     | C_Locked2 \<Rightarrow>
         Some (s\<lparr>waitingScrapes := waitingScrapes s - {i}, waitingMtx := None,
                 cpc := (cpc s)(i := C_Return),
                 returned := (returned s)(i := Some (None, Some ErrScrapeTimeoutBeforeExecFinished))\<rparr>)
     | C_Return \<Rightarrow> None)"

text \<open>
  The first case of the \<open>select\<close> of line 164: the receive from \<open>scrapeCh\<close> can proceed when
  the worker is sending on this channel. The caller returns the fields of the struct and the
  worker's send is over. Reading through a pointer with no struct behind it panics.
\<close>

definition execProxy_Scrape_recv :: "nat \<Rightarrow> execProxy \<Rightarrow> execProxy option" where
  "execProxy_Scrape_recv i s =
    (if cpc s i = C_Wait \<and> wpc s = W_Send \<and> cur s = i then
       (case heap s (result s) of
          None \<Rightarrow> Some (s\<lparr>crashed := True\<rparr>)
        | Some r \<Rightarrow>
            Some (s\<lparr>received := (received s)(i := Some (result s)),
                    returned := (returned s)(i := Some (mfs r, err r)),
                    cpc := (cpc s)(i := C_Return), wpc := W_Range\<rparr>))
     else None)"

text \<open>The second case: the receive from \<open>ctx.Done()\<close> can proceed once the context is cancelled.\<close>

definition execProxy_Scrape_ctxDone :: "nat \<Rightarrow> execProxy \<Rightarrow> execProxy option" where
  "execProxy_Scrape_ctxDone i s =
    (if cpc s i = C_Wait \<and> ctx_cancelled s i then Some (s\<lparr>cpc := (cpc s)(i := C_Lock2)\<rparr>)
     else None)"

text \<open>
  The steps of the system. \<open>Cancel i\<close> is the cancellation (or deadline) of the context of
  caller \<open>i\<close>. With both cases of the \<open>select\<close> of line 164 ready, \<open>CRecv\<close> and \<open>CDone\<close> are
  both possible: the runtime picks. After a panic there is no step.
\<close>

datatype label =
    WStep
  | WExec script_run
  | WNext nat
  | CStep nat
  | CRecv nat
  | CDone nat
  | Cancel nat

definition step :: "label \<Rightarrow> execProxy \<Rightarrow> execProxy option" where
  "step l s =
    (if crashed s then None
     else (case l of
             WStep \<Rightarrow> execProxy_execer_step s
           | WExec run \<Rightarrow> execProxy_execer_doExec run s
           | WNext ch \<Rightarrow> execProxy_execer_range ch s
           | CStep i \<Rightarrow> execProxy_Scrape_step i s
           | CRecv i \<Rightarrow> execProxy_Scrape_recv i s
           | CDone i \<Rightarrow> execProxy_Scrape_ctxDone i s
           | Cancel i \<Rightarrow> Some (s\<lparr>ctx_cancelled := (ctx_cancelled s)(i := True)\<rparr>)))"

text \<open>A schedule is a list of labels; it runs as long as each of its steps is possible.\<close>

fun run_schedule :: "label list \<Rightarrow> execProxy \<Rightarrow> execProxy option" where
  "run_schedule [] s = Some s"
| "run_schedule (l # ls) s =
    (case step l s of None \<Rightarrow> None | Some s' \<Rightarrow> run_schedule ls s')"

text \<open>
  The address of the struct that the callers now in \<open>waitingScrapes\<close> are to be sent: the
  worker's \<open>result\<close> once \<open>doExec\<close> has returned in this iteration, the next address to be
  allocated before.
\<close>

definition serving :: "execProxy \<Rightarrow> nat" where
  "serving s =
    (if wpc s = W_Lock2 \<or> wpc s = W_Range \<or> wpc s = W_Send then result s else next_ptr s)"

subsection \<open>What holds in every state the proxy can reach\<close>

text \<open>The mutex is held by the goroutine that is inside one of its critical sections.\<close>

definition holds_mutex :: "caller_pc \<Rightarrow> bool" where
  "holds_mutex pc \<longleftrightarrow> pc = C_Locked1 \<or> pc = C_Locked2"

definition mutex_inv :: "execProxy \<Rightarrow> bool" where
  "mutex_inv s \<longleftrightarrow>
     (case waitingMtx s of
        None \<Rightarrow> wpc s \<notin> {W_Locked1, W_Range, W_Send} \<and> (\<forall>j. \<not> holds_mutex (cpc s j))
      | Some Worker \<Rightarrow> wpc s \<in> {W_Locked1, W_Range, W_Send} \<and> (\<forall>j. \<not> holds_mutex (cpc s j))
      | Some (Caller i) \<Rightarrow>
          wpc s \<notin> {W_Locked1, W_Range, W_Send} \<and> holds_mutex (cpc s i) \<and>
          (\<forall>j. j \<noteq> i \<longrightarrow> \<not> holds_mutex (cpc s j)))"

text \<open>
  The \<open>range\<close> loop visits keys of the map; once \<open>doExec\<close> has returned, \<open>result\<close> points
  to a struct.
\<close>

definition range_inv :: "execProxy \<Rightarrow> bool" where
  "range_inv s \<longleftrightarrow>
     finite (waitingScrapes s) \<and>
     (wpc s = W_Range \<or> wpc s = W_Send \<longrightarrow> todo s \<subseteq> waitingScrapes s) \<and>
     (wpc s = W_Send \<longrightarrow> cur s \<in> waitingScrapes s \<and> cur s \<notin> todo s) \<and>
     (wpc s = W_Lock2 \<or> wpc s = W_Range \<or> wpc s = W_Send \<longrightarrow>
        heap s (result s) \<noteq> None \<and> result s < next_ptr s)"

text \<open>
  What holds of each caller \<open>i\<close>. Before it has registered, it is not in the map and has
  received nothing.
\<close>

definition not_yet_registered :: "execProxy \<Rightarrow> nat \<Rightarrow> bool" where
  "not_yet_registered s i \<longleftrightarrow>
     (cpc s i = C_Lock1 \<or> cpc s i = C_Locked1 \<longrightarrow> i \<notin> waitingScrapes s \<and> received s i = None)"

text \<open>A caller that has received a pointer has returned.\<close>

definition received_returns :: "execProxy \<Rightarrow> nat \<Rightarrow> bool" where
  "received_returns s i \<longleftrightarrow> (received s i \<noteq> None \<longrightarrow> cpc s i = C_Return)"

text \<open>
  While a caller that has received is still in the map, the worker is in the \<open>range\<close> loop
  that sent it the pointer, and has visited it.
\<close>

definition served_in_range :: "execProxy \<Rightarrow> nat \<Rightarrow> bool" where
  "served_in_range s i \<longleftrightarrow>
     (i \<in> waitingScrapes s \<and> received s i \<noteq> None \<longrightarrow>
        (wpc s = W_Range \<or> wpc s = W_Send) \<and> received s i = Some (result s) \<and> i \<notin> todo s \<and>
        (wpc s = W_Send \<longrightarrow> cur s \<noteq> i))"

text \<open>A caller in the map that has not received is still to be visited by the \<open>range\<close> loop.\<close>

definition unserved_todo :: "execProxy \<Rightarrow> nat \<Rightarrow> bool" where
  "unserved_todo s i \<longleftrightarrow>
     (i \<in> waitingScrapes s \<and> received s i = None \<and> (wpc s = W_Range \<or> wpc s = W_Send) \<longrightarrow>
        i \<in> todo s \<or> (wpc s = W_Send \<and> cur s = i))"

text \<open>A caller that has returned without receiving has deleted itself from the map.\<close>

definition timed_out_gone :: "execProxy \<Rightarrow> nat \<Rightarrow> bool" where
  "timed_out_gone s i \<longleftrightarrow> (cpc s i = C_Return \<and> received s i = None \<longrightarrow> i \<notin> waitingScrapes s)"

text \<open>A pointer received is the address of a struct, whose fields the caller has returned.\<close>

definition received_struct :: "execProxy \<Rightarrow> nat \<Rightarrow> bool" where
  "received_struct s i \<longleftrightarrow>
     (\<forall>p. received s i = Some p \<longrightarrow>
        p < next_ptr s \<and> (\<exists>r. heap s p = Some r \<and> returned s i = Some (mfs r, err r)))"

definition waiter_inv :: "execProxy \<Rightarrow> bool" where
  "waiter_inv s \<longleftrightarrow>
     (\<forall>i. not_yet_registered s i \<and> received_returns s i \<and> served_in_range s i \<and>
          unserved_todo s i \<and> timed_out_gone s i \<and> received_struct s i)"

definition proxy_inv :: "execProxy \<Rightarrow> bool" where
  "proxy_inv s \<longleftrightarrow> mutex_inv s \<and> range_inv s \<and> waiter_inv s"

text \<open>
  What becomes of caller \<open>i\<close> with respect to the struct at address \<open>p\<close>: it is in the map
  and \<open>p\<close> is what the map's callers are to be sent, or it has received \<open>p\<close>, or it has left
  the map by its timeout.
\<close>

definition awaits :: "nat \<Rightarrow> nat \<Rightarrow> execProxy \<Rightarrow> bool" where
  "awaits i p s \<longleftrightarrow>
     (i \<in> waitingScrapes s \<and> received s i = None \<and> serving s = p) \<or>
     received s i = Some p \<or>
     (i \<notin> waitingScrapes s \<and> received s i = None \<and> cpc s i = C_Return)"

text \<open>
  The worker is blocked in its send to a caller that has taken the \<open>ctx.Done()\<close> case and
  waits for the mutex the worker holds.
\<close>

definition send_deadlock :: "execProxy \<Rightarrow> bool" where
  "send_deadlock s \<longleftrightarrow>
     wpc s = W_Send \<and> cpc s (cur s) = C_Lock2 \<and> waitingMtx s = Some Worker"

section \<open>Properties of one run of the script\<close>

lemma log_error_Some [simp]: "log_error (Some e) msg = Inr [LogError (error_message e) msg]"
  by (simp add: log_error_def)

lemma log_error_None [simp]: "log_error None msg = Inl NilDereference"
  by (simp add: log_error_def)

lemma execCachingProxy_execer_iteration_succeeds:
  assumes "run_succeeds run"
  shows "execCachingProxy_execer_iteration now run ecp =
           ([CallStdoutPipe, CallStart, CallDecodeMetrics, CallKill, LockW,
             StoreLastResult (fst (decodeMetrics_ret run))]
              @ (if rdyCh_nil ecp then [] else [CloseReady]) @ [UnlockW],
            Inr (if rdyCh_nil ecp then ecp\<lparr>lastExec := now, lastResult := fst (decodeMetrics_ret run)\<rparr>
                 else ecp\<lparr>lastExec := now, lastResult := fst (decodeMetrics_ret run),
                          ready_closed := True, rdyCh_nil := True\<rparr>))"
  using assms
  by (cases "decodeMetrics_ret run") (simp add: run_succeeds_def execCachingProxy_execer_iteration_def)

lemma execCachingProxy_execer_iteration_pipe_fails:
  "stdoutPipe_ret run = Some e \<Longrightarrow>
   execCachingProxy_execer_iteration now run ecp =
     ([CallStdoutPipe, LogError (error_message e) ''Error opening stdout pipe to metric script''],
      Inr (ecp\<lparr>lastExec := now\<rparr>))"
  by (simp add: execCachingProxy_execer_iteration_def)

lemma execCachingProxy_execer_iteration_start_fails:
  "stdoutPipe_ret run = None \<Longrightarrow> start_ret run = Some e \<Longrightarrow>
   execCachingProxy_execer_iteration now run ecp =
     ([CallStdoutPipe, CallStart, LogError (error_message e) ''Error starting metric script''],
      Inr (ecp\<lparr>lastExec := now\<rparr>))"
  by (simp add: execCachingProxy_execer_iteration_def)

lemma execCachingProxy_execer_iteration_decode_fails:
  "stdoutPipe_ret run = None \<Longrightarrow> start_ret run = None \<Longrightarrow> decodeMetrics_ret run = (m, Some d) \<Longrightarrow>
   execCachingProxy_execer_iteration now run ecp =
     ([CallStdoutPipe, CallStart, CallDecodeMetrics, CallKill]
        @ (case kill_ret run of None \<Rightarrow> []
           | Some e \<Rightarrow> [LogError (error_message d) ''Error sending kill signal to subprocess''])
        @ [LogError (error_message d) ''Metric decoding from script output failed''],
      Inr (ecp\<lparr>lastExec := now\<rparr>))"
  by (cases "kill_ret run") (simp_all add: execCachingProxy_execer_iteration_def)

lemma execCachingProxy_execer_iteration_fails_early:
  assumes "run_fails_early run"
  shows "snd (execCachingProxy_execer_iteration now run ecp) = Inr (ecp\<lparr>lastExec := now\<rparr>)"
    and "set (fst (execCachingProxy_execer_iteration now run ecp)) \<inter> {LockW, UnlockW, CloseReady} = {}"
    and "StoreLastResult m \<notin> set (fst (execCachingProxy_execer_iteration now run ecp))"
proof -
  consider e where "stdoutPipe_ret run = Some e"
    | e where "stdoutPipe_ret run = None" "start_ret run = Some e"
    | m d where "stdoutPipe_ret run = None" "start_ret run = None" "decodeMetrics_ret run = (m, Some d)"
    using assms unfolding run_fails_early_def
    by (cases "stdoutPipe_ret run"; cases "start_ret run"; cases "decodeMetrics_ret run") auto
  then have "snd (execCachingProxy_execer_iteration now run ecp) = Inr (ecp\<lparr>lastExec := now\<rparr>)
     \<and> set (fst (execCachingProxy_execer_iteration now run ecp)) \<inter> {LockW, UnlockW, CloseReady} = {}
     \<and> StoreLastResult m \<notin> set (fst (execCachingProxy_execer_iteration now run ecp))"
  proof cases
    case 1
    then show ?thesis by (simp add: execCachingProxy_execer_iteration_pipe_fails)
  next
    case 2
    then show ?thesis by (simp add: execCachingProxy_execer_iteration_start_fails)
  next
    case 3
    then show ?thesis by (cases "kill_ret run") (simp_all add: execCachingProxy_execer_iteration_decode_fails)
  qed
  then show "snd (execCachingProxy_execer_iteration now run ecp) = Inr (ecp\<lparr>lastExec := now\<rparr>)"
    and "set (fst (execCachingProxy_execer_iteration now run ecp)) \<inter> {LockW, UnlockW, CloseReady} = {}"
    and "StoreLastResult m \<notin> set (fst (execCachingProxy_execer_iteration now run ecp))"
    by simp_all
qed

lemma execCachingProxy_execer_iteration_kill_fails:
  assumes "kill_fails_after_decode run"
  shows "execCachingProxy_execer_iteration now run ecp =
           ([CallStdoutPipe, CallStart, CallDecodeMetrics, CallKill], Inl NilDereference)"
  using assms
  by (cases "decodeMetrics_ret run") (auto simp: kill_fails_after_decode_def execCachingProxy_execer_iteration_def)

lemma run_cases: "run_succeeds run \<or> run_fails_early run \<or> kill_fails_after_decode run"
  by (auto simp: run_succeeds_def run_fails_early_def kill_fails_after_decode_def)

text \<open>Once the worker has set its \<open>rdyCh\<close> to nil it never closes the channel again.\<close>

lemma no_close_after_nil:
  assumes "rdyCh_nil ecp" "k < length (execCachingProxy_execer_events iters ecp)"
  shows "CloseReady \<notin> set (execCachingProxy_execer_events iters ecp ! k)"
  using assms
proof (induction iters arbitrary: ecp k)
  case Nil
  then show ?case by simp
next
  case (Cons it iters)
  obtain now run where it: "it = (now, run)" by (cases it)
  consider "run_succeeds run" | "run_fails_early run" | "kill_fails_after_decode run"
    using run_cases by blast
  then show ?case
  proof cases
    case 1
    show ?thesis
    proof (cases k)
      case 0
      then show ?thesis using Cons.prems 1 it by (simp add: execCachingProxy_execer_iteration_succeeds)
    next
      case (Suc k')
      then show ?thesis
        using Cons.prems 1 it Cons.IH[of "ecp\<lparr>lastExec := now, lastResult := fst (decodeMetrics_ret run)\<rparr>" k']
        by (simp add: execCachingProxy_execer_iteration_succeeds)
    qed
  next
    case 2
    have s: "execCachingProxy_execer_iteration now run ecp = (fst (execCachingProxy_execer_iteration now run ecp), Inr (ecp\<lparr>lastExec := now\<rparr>))"
      using execCachingProxy_execer_iteration_fails_early(1)[OF 2, of now ecp] by (metis prod.collapse)
    show ?thesis
    proof (cases k)
      case 0
      then show ?thesis using execCachingProxy_execer_iteration_fails_early(2)[OF 2, of now ecp] it s
        by (auto simp: split: prod.splits sum.splits)
    next
      case (Suc k')
      then show ?thesis
        using Cons.prems it Cons.IH[of "ecp\<lparr>lastExec := now\<rparr>" k'] s
        by (auto split: prod.splits sum.splits)
    qed
  next
    case 3
    then show ?thesis using Cons.prems it by (simp add: execCachingProxy_execer_iteration_kill_fails)
  qed
qed

lemma close_at_first_success:
  assumes "\<not> rdyCh_nil ecp" "k < length (execCachingProxy_execer_events iters ecp)"
  shows "CloseReady \<in> set (execCachingProxy_execer_events iters ecp ! k) \<longleftrightarrow>
           run_succeeds (snd (iters ! k)) \<and> (\<forall>j<k. \<not> run_succeeds (snd (iters ! j)))"
  using assms
proof (induction iters arbitrary: ecp k)
  case Nil
  then show ?case by simp
next
  case (Cons it iters)
  obtain now run where it: "it = (now, run)" by (cases it)
  consider "run_succeeds run" | "run_fails_early run" | "kill_fails_after_decode run"
    using run_cases by blast
  then show ?case
  proof cases
    case 1
    show ?thesis
    proof (cases k)
      case 0
      then show ?thesis using Cons.prems 1 it by (simp add: execCachingProxy_execer_iteration_succeeds)
    next
      case (Suc k')
      have "CloseReady \<notin> set (execCachingProxy_execer_events (it # iters) ecp ! k)"
        using Suc Cons.prems 1 it
          no_close_after_nil[of "ecp\<lparr>lastExec := now, lastResult := fst (decodeMetrics_ret run),
                          ready_closed := True, rdyCh_nil := True\<rparr>" k' iters]
        by (simp add: execCachingProxy_execer_iteration_succeeds)
      moreover have "\<not> (\<forall>j<k. \<not> run_succeeds (snd ((it # iters) ! j)))"
        using Suc 1 it by auto
      ultimately show ?thesis by simp
    qed
  next
    case 2
    have s: "execCachingProxy_execer_iteration now run ecp = (fst (execCachingProxy_execer_iteration now run ecp), Inr (ecp\<lparr>lastExec := now\<rparr>))"
      using execCachingProxy_execer_iteration_fails_early(1)[OF 2, of now ecp] by (metis prod.collapse)
    have nr: "\<not> run_succeeds run" using 2 by (auto simp: run_succeeds_def run_fails_early_def)
    show ?thesis
    proof (cases k)
      case 0
      then show ?thesis using execCachingProxy_execer_iteration_fails_early(2)[OF 2, of now ecp] it s nr
        by (auto simp: split: prod.splits sum.splits)
    next
      case (Suc k')
      have "CloseReady \<in> set (execCachingProxy_execer_events iters (ecp\<lparr>lastExec := now\<rparr>) ! k') \<longleftrightarrow>
           run_succeeds (snd (iters ! k')) \<and> (\<forall>j<k'. \<not> run_succeeds (snd (iters ! j)))"
        using Cons.prems it Suc s by (intro Cons.IH) (auto split: prod.splits sum.splits)
      moreover have "(\<forall>j<k. \<not> run_succeeds (snd ((it # iters) ! j))) \<longleftrightarrow> (\<forall>j<k'. \<not> run_succeeds (snd (iters ! j)))"
        using Suc nr it by (auto simp: less_Suc_eq_0_disj)
      ultimately show ?thesis
        using Suc it s by (auto split: prod.splits sum.splits)
    qed
  next
    case 3
    then have nr: "\<not> run_succeeds run" by (auto simp: run_succeeds_def kill_fails_after_decode_def)
    from 3 show ?thesis using Cons.prems it nr by (simp add: execCachingProxy_execer_iteration_kill_fails)
  qed
qed

text \<open>
  What \<open>doExec\<close> returns, stage by stage: the error of the first stage that fails, the kill
  error taking precedence over the decode error, or the decoded slice when none fails. The
  one run without a result is the kill failing after a successful decode.
\<close>

lemma doExec_outcomes:
  "snd (doExec run) =
    (case stdoutPipe_ret run of
       Some perr \<Rightarrow> Inr \<lparr>mfs = None, err = Some perr\<rparr>
     | None \<Rightarrow>
    (case start_ret run of
       Some e \<Rightarrow> Inr \<lparr>mfs = None, err = Some e\<rparr>
     | None \<Rightarrow>
    (case kill_ret run of
       Some e \<Rightarrow>
         (case snd (decodeMetrics_ret run) of
            None \<Rightarrow> Inl NilDereference
          | Some d \<Rightarrow> Inr \<lparr>mfs = None, err = Some e\<rparr>)
     | None \<Rightarrow>
         (case snd (decodeMetrics_ret run) of
            None \<Rightarrow> Inr \<lparr>mfs = fst (decodeMetrics_ret run), err = None\<rparr>
          | Some d \<Rightarrow> Inr \<lparr>mfs = None, err = Some d\<rparr>))))"
  by (simp add: doExec_def split: option.splits prod.splits)

text \<open>Once the script has started, \<open>doExec\<close> decodes and then kills, whatever the decoder returns.\<close>

lemma doExec_kills_after_decode:
  assumes "stdoutPipe_ret run = None" "start_ret run = None"
  shows "take 4 (fst (doExec run)) = [CallStdoutPipe, CallStart, CallDecodeMetrics, CallKill]"
  using assms
  by (cases "decodeMetrics_ret run"; cases "kill_ret run"; cases "snd (decodeMetrics_ret run)")
     (simp_all add: doExec_def)

subsection \<open>doExec\<close>

text \<open>
  Claim C2. In \<open>doExec\<close> the subprocess is killed after decoding whether or not decoding
  succeeded (\<open>doExec_kills_after_decode\<close>), and a failure at any stage is to yield a result
  struct carrying that stage's error. The source assigns the kill error to \<open>result.err\<close>,
  but the log line of that branch calls \<open>derr.Error()\<close>, the decode error, not \<open>err.Error()\<close>.
  When the kill fails after a successful decode, \<open>derr\<close> is nil: the call panics and no
  result is returned.
\<close>

theorem doExec_kill_failure_no_result:
  "doExec \<lparr>stdoutPipe_ret = None, start_ret = None, decodeMetrics_ret = (Some [1, 2], None),
           kill_ret = Some (ExternalError ''os: process already finished'')\<rparr>
   = ([CallStdoutPipe, CallStart, CallDecodeMetrics, CallKill], Inl NilDereference)"
  by (simp add: doExec_def)

text \<open>
  Claim C10. On the kill-failure logging path of both exec workers, \<open>Error()\<close> is to be
  invoked on non-nil errors only. Both branches invoke it on the decode error: whenever the
  kill fails after a successful decode, the receiver is nil, and \<open>doExec\<close> as well as the
  iteration of the caching worker end in a nil dereference.
\<close>

theorem kill_failure_log_dereferences_nil:
  assumes "kill_fails_after_decode run"
  shows "Error (snd (decodeMetrics_ret run)) = Inl NilDereference
         \<and> snd (doExec run) = Inl NilDereference
         \<and> snd (execCachingProxy_execer_iteration now run ecp) = Inl NilDereference"
proof -
  obtain m where d: "decodeMetrics_ret run = (m, None)"
    using assms by (cases "decodeMetrics_ret run") (simp add: kill_fails_after_decode_def)
  have "Error (snd (decodeMetrics_ret run)) = Inl NilDereference"
    using d by simp
  moreover have "snd (doExec run) = Inl NilDereference"
    using assms d by (auto simp: kill_fails_after_decode_def doExec_def)
  moreover have "snd (execCachingProxy_execer_iteration now run ecp) = Inl NilDereference"
    using assms by (simp add: execCachingProxy_execer_iteration_kill_fails)
  ultimately show ?thesis by simp
qed

theorem kill_failure_log_dereferences_nil_witness:
  "kill_fails_after_decode \<lparr>stdoutPipe_ret = None, start_ret = None, decodeMetrics_ret = (Some [1, 2], None),
           kill_ret = Some (ExternalError ''os: process already finished'')\<rparr>
   \<and> snd (doExec \<lparr>stdoutPipe_ret = None, start_ret = None, decodeMetrics_ret = (Some [1, 2], None),
           kill_ret = Some (ExternalError ''os: process already finished'')\<rparr>) = Inl NilDereference
   \<and> snd (execCachingProxy_execer_iteration 7 \<lparr>stdoutPipe_ret = None, start_ret = None, decodeMetrics_ret = (Some [1, 2], None),
           kill_ret = Some (ExternalError ''os: process already finished'')\<rparr> newExecCachingProxy) = Inl NilDereference"
proof -
  have h: "kill_fails_after_decode \<lparr>stdoutPipe_ret = None, start_ret = None, decodeMetrics_ret = (Some [1, 2], None),
           kill_ret = Some (ExternalError ''os: process already finished'')\<rparr>"
    by (simp add: kill_fails_after_decode_def)
  show ?thesis
    using h kill_failure_log_dereferences_nil[OF h, of 7 newExecCachingProxy]
    by simp
qed

subsection \<open>The caching worker\<close>

text \<open>
  As written, claim C5 has the cache retained and the worker going on after any failure, the
  kill included. When the kill alone fails the worker does neither: it panics.
\<close>

theorem execer_kill_failure_counterexample:
  "kill_ret \<lparr>stdoutPipe_ret = None, start_ret = None, decodeMetrics_ret = (Some [1, 2], None),
           kill_ret = Some (ExternalError ''os: process already finished'')\<rparr> \<noteq> None
   \<and> execCachingProxy_execer [(7, \<lparr>stdoutPipe_ret = None, start_ret = None, decodeMetrics_ret = (Some [1, 2], None),
           kill_ret = Some (ExternalError ''os: process already finished'')\<rparr>)] newExecCachingProxy
     = Inl NilDereference"
  by (simp add: execCachingProxy_execer_iteration_def)

text \<open>
  Claim C5, amended. An iteration of the caching worker in which pipe, start, decode and kill
  all succeed stores the decoded slice into \<open>lastResult\<close> between \<open>Lock\<close> and \<open>Unlock\<close> of
  the writer lock. An iteration in which the pipe, the start or the decode fails, whether or
  not the kill fails too, leaves \<open>lastResult\<close> and the readiness channel as they were and
  the worker goes on. In any run of the worker from its construction, the readiness channel
  is closed in iteration \<open>k\<close> exactly when \<open>k\<close> is the first fully successful iteration.
  Nothing is said about an iteration whose kill alone fails.
\<close>

theorem execer_cache_update:
  "(run_succeeds run \<longrightarrow>
      fst (execCachingProxy_execer_iteration now run ecp) =
        [CallStdoutPipe, CallStart, CallDecodeMetrics, CallKill, LockW,
         StoreLastResult (fst (decodeMetrics_ret run))]
        @ (if rdyCh_nil ecp then [] else [CloseReady]) @ [UnlockW]
      \<and> (\<exists>ecp'. snd (execCachingProxy_execer_iteration now run ecp) = Inr ecp'
             \<and> lastResult ecp' = fst (decodeMetrics_ret run) \<and> rdyCh_nil ecp'))
   \<and> (run_fails_early run_bad \<longrightarrow>
        (\<exists>ecp'. snd (execCachingProxy_execer_iteration now_bad run_bad ecp) = Inr ecp'
             \<and> lastResult ecp' = lastResult ecp \<and> ready_closed ecp' = ready_closed ecp)
        \<and> CloseReady \<notin> set (fst (execCachingProxy_execer_iteration now_bad run_bad ecp))
        \<and> StoreLastResult m \<notin> set (fst (execCachingProxy_execer_iteration now_bad run_bad ecp)))
   \<and> (k < length (execCachingProxy_execer_events iters newExecCachingProxy) \<longrightarrow>
        (CloseReady \<in> set (execCachingProxy_execer_events iters newExecCachingProxy ! k) \<longleftrightarrow>
           run_succeeds (snd (iters ! k)) \<and> (\<forall>j<k. \<not> run_succeeds (snd (iters ! j)))))"
proof (intro conjI impI)
  assume ok: "run_succeeds run"
  show "fst (execCachingProxy_execer_iteration now run ecp) =
        [CallStdoutPipe, CallStart, CallDecodeMetrics, CallKill, LockW,
         StoreLastResult (fst (decodeMetrics_ret run))]
        @ (if rdyCh_nil ecp then [] else [CloseReady]) @ [UnlockW]"
    by (simp add: execCachingProxy_execer_iteration_succeeds[OF ok])
  show "\<exists>ecp'. snd (execCachingProxy_execer_iteration now run ecp) = Inr ecp'
             \<and> lastResult ecp' = fst (decodeMetrics_ret run) \<and> rdyCh_nil ecp'"
    by (simp add: execCachingProxy_execer_iteration_succeeds[OF ok])
next
  assume f: "run_fails_early run_bad"
  show "\<exists>ecp'. snd (execCachingProxy_execer_iteration now_bad run_bad ecp) = Inr ecp'
             \<and> lastResult ecp' = lastResult ecp \<and> ready_closed ecp' = ready_closed ecp"
    by (simp add: execCachingProxy_execer_iteration_fails_early(1)[OF f])
  show "CloseReady \<notin> set (fst (execCachingProxy_execer_iteration now_bad run_bad ecp))"
    using execCachingProxy_execer_iteration_fails_early(2)[OF f, of now_bad ecp] by blast
  show "StoreLastResult m \<notin> set (fst (execCachingProxy_execer_iteration now_bad run_bad ecp))"
    by (rule execCachingProxy_execer_iteration_fails_early(3)[OF f])
next
  assume "k < length (execCachingProxy_execer_events iters newExecCachingProxy)"
  then show "CloseReady \<in> set (execCachingProxy_execer_events iters newExecCachingProxy ! k) \<longleftrightarrow>
           run_succeeds (snd (iters ! k)) \<and> (\<forall>j<k. \<not> run_succeeds (snd (iters ! j)))"
    by (intro close_at_first_success) (simp add: newExecCachingProxy_def)
qed

theorem execer_cache_update_witness:
  "run_succeeds \<lparr>stdoutPipe_ret = None, start_ret = None, decodeMetrics_ret = (Some [3, 4], None),
                 kill_ret = None\<rparr>
   \<and> run_fails_early \<lparr>stdoutPipe_ret = None, start_ret = None,
                 decodeMetrics_ret = (None, Some (ExternalError ''text format parsing error'')),
                 kill_ret = Some (ExternalError ''os: process already finished'')\<rparr>
   \<and> execCachingProxy_execer_events
        [(10, \<lparr>stdoutPipe_ret = None, start_ret = None,
               decodeMetrics_ret = (None, Some (ExternalError ''text format parsing error'')),
               kill_ret = Some (ExternalError ''os: process already finished'')\<rparr>),
         (20, \<lparr>stdoutPipe_ret = None, start_ret = None, decodeMetrics_ret = (Some [3, 4], None),
               kill_ret = None\<rparr>),
         (30, \<lparr>stdoutPipe_ret = None, start_ret = None, decodeMetrics_ret = (Some [5], None),
               kill_ret = None\<rparr>)] newExecCachingProxy ! 1
      = [CallStdoutPipe, CallStart, CallDecodeMetrics, CallKill, LockW, StoreLastResult (Some [3, 4]),
         CloseReady, UnlockW]
   \<and> execCachingProxy_execer_events
        [(10, \<lparr>stdoutPipe_ret = None, start_ret = None,
               decodeMetrics_ret = (None, Some (ExternalError ''text format parsing error'')),
               kill_ret = Some (ExternalError ''os: process already finished'')\<rparr>),
         (20, \<lparr>stdoutPipe_ret = None, start_ret = None, decodeMetrics_ret = (Some [3, 4], None),
               kill_ret = None\<rparr>),
         (30, \<lparr>stdoutPipe_ret = None, start_ret = None, decodeMetrics_ret = (Some [5], None),
               kill_ret = None\<rparr>)] newExecCachingProxy ! 2
      = [CallStdoutPipe, CallStart, CallDecodeMetrics, CallKill, LockW, StoreLastResult (Some [5]),
         UnlockW]"
proof -
  let ?bad = "\<lparr>stdoutPipe_ret = None, start_ret = None,
                 decodeMetrics_ret = (None, Some (ExternalError ''text format parsing error'')),
                 kill_ret = Some (ExternalError ''os: process already finished'')\<rparr>"
  let ?ok = "\<lparr>stdoutPipe_ret = None, start_ret = None, decodeMetrics_ret = (Some [3, 4], None),
                 kill_ret = None\<rparr>"
  let ?ok2 = "\<lparr>stdoutPipe_ret = None, start_ret = None, decodeMetrics_ret = (Some [5], None),
                 kill_ret = None\<rparr>"
  let ?iters = "[(10, ?bad), (20, ?ok), (30, ?ok2)]"
  have h1: "run_succeeds ?ok" by (simp add: run_succeeds_def)
  have h2: "run_fails_early ?bad" by (simp add: run_fails_early_def)
  have e1: "execCachingProxy_execer_iteration 10 ?bad newExecCachingProxy =
      ([CallStdoutPipe, CallStart, CallDecodeMetrics, CallKill,
        LogError ''text format parsing error'' ''Error sending kill signal to subprocess'',
        LogError ''text format parsing error'' ''Metric decoding from script output failed''],
       Inr (newExecCachingProxy\<lparr>lastExec := 10\<rparr>))"
    by (simp add: execCachingProxy_execer_iteration_def)
  have e2: "execCachingProxy_execer_iteration 20 ?ok (newExecCachingProxy\<lparr>lastExec := 10\<rparr>) =
      ([CallStdoutPipe, CallStart, CallDecodeMetrics, CallKill, LockW, StoreLastResult (Some [3, 4]),
         CloseReady, UnlockW],
       Inr (newExecCachingProxy\<lparr>lastExec := 20, lastResult := Some [3, 4], ready_closed := True, rdyCh_nil := True\<rparr>))"
    by (simp add: execCachingProxy_execer_iteration_def newExecCachingProxy_def)
  have e3: "execCachingProxy_execer_iteration 30 ?ok2
        (newExecCachingProxy\<lparr>lastExec := 20, lastResult := Some [3, 4], ready_closed := True, rdyCh_nil := True\<rparr>) =
      ([CallStdoutPipe, CallStart, CallDecodeMetrics, CallKill, LockW, StoreLastResult (Some [5]), UnlockW],
       Inr (newExecCachingProxy\<lparr>lastExec := 30, lastResult := Some [5], ready_closed := True, rdyCh_nil := True\<rparr>))"
    by (simp add: execCachingProxy_execer_iteration_def newExecCachingProxy_def)
  have ev: "execCachingProxy_execer_events ?iters newExecCachingProxy =
      [fst (execCachingProxy_execer_iteration 10 ?bad newExecCachingProxy),
       [CallStdoutPipe, CallStart, CallDecodeMetrics, CallKill, LockW, StoreLastResult (Some [3, 4]),
         CloseReady, UnlockW],
       [CallStdoutPipe, CallStart, CallDecodeMetrics, CallKill, LockW, StoreLastResult (Some [5]), UnlockW]]"
    by (simp add: e1 e2 e3)
  have h3: "(1::nat) < length (execCachingProxy_execer_events ?iters newExecCachingProxy)"
    by (subst ev) simp
  note t = execer_cache_update[of ?ok 20 "newExecCachingProxy\<lparr>lastExec := 10\<rparr>" ?bad 10 "Some [3, 4]" 1 ?iters]
  note t3 = t[THEN conjunct2, THEN conjunct2, THEN mp, OF h3]
  have s: "run_succeeds (snd (?iters ! 1)) \<and> (\<forall>j<1. \<not> run_succeeds (snd (?iters ! j)))"
    by (simp add: run_succeeds_def)
  have c: "CloseReady \<in> set (execCachingProxy_execer_events ?iters newExecCachingProxy ! 1)"
    using t3 s by (rule iffD2)
  have n1: "execCachingProxy_execer_events ?iters newExecCachingProxy ! 1 =
      [CallStdoutPipe, CallStart, CallDecodeMetrics, CallKill, LockW, StoreLastResult (Some [3, 4]),
         CloseReady, UnlockW]"
    by (subst ev) simp
  have n2: "execCachingProxy_execer_events ?iters newExecCachingProxy ! 2 =
      [CallStdoutPipe, CallStart, CallDecodeMetrics, CallKill, LockW, StoreLastResult (Some [5]), UnlockW]"
    by (subst ev) simp
  from h1 h2 n1 n2 c show ?thesis
    by (intro conjI)
qed

subsection \<open>Scrape of the caching proxy\<close>

text \<open>
  As written, claim C6 has a \<open>Scrape\<close> that comes after readiness return the cache with a
  nil error. The \<open>select\<close> of \<open>execCachingProxy.Scrape\<close> gives neither case priority:
  called on a proxy whose readiness channel is closed with a context that is already
  cancelled, both cases are ready, and when the runtime picks \<open>ctx.Done()\<close> the call returns
  the timeout error.
\<close>

theorem Scrape_ready_timeout_counterexample:
  "execCachingProxy_execer [(7, \<lparr>stdoutPipe_ret = None, start_ret = None, decodeMetrics_ret = (Some [5, 6], None),
                 kill_ret = None\<rparr>)] newExecCachingProxy
     = Inr \<lparr>lastExec = 7, lastResult = Some [5, 6], ready_closed = True, rdyCh_nil = True\<rparr>
   \<and> execCachingProxy_Scrape ContextDone True
        \<lparr>lastExec = 7, lastResult = Some [5, 6], ready_closed = True, rdyCh_nil = True\<rparr>
        \<lparr>lastExec = 7, lastResult = Some [5, 6], ready_closed = True, rdyCh_nil = True\<rparr>
       = Some ([], Some [], Some ErrScrapeTimeoutBeforeExecFinished)"
  by (simp add: execCachingProxy_execer_iteration_def newExecCachingProxy_def execCachingProxy_Scrape_def
      execCachingProxy_Scrape_select_def)

text \<open>
  Claim C6, amended. \<open>execCachingProxy.Scrape\<close> stays blocked while the readiness channel is
  open and the context is live. With the context cancelled and the channel still open it
  returns the \<open>ErrScrapeTimeoutBeforeExecFinished\<close> error. With the channel closed and the
  context live it takes the reader lock and returns \<open>lastResult\<close> as it is at the read, with
  a nil error. With the channel closed and the context cancelled the outcome is that of the
  case the runtime picks: the cache with a nil error, or the timeout error.
\<close>

theorem execCachingProxy_Scrape_outcomes:
  "(\<not> ready_closed ecp \<and> \<not> ctx_done \<longrightarrow>
      execCachingProxy_Scrape pick ctx_done ecp ecp_read = None)
   \<and> (\<not> ready_closed ecp \<and> ctx_done \<longrightarrow>
      execCachingProxy_Scrape pick ctx_done ecp ecp_read
        = Some ([], Some [], Some ErrScrapeTimeoutBeforeExecFinished))
   \<and> (ready_closed ecp \<and> \<not> ctx_done \<longrightarrow>
      execCachingProxy_Scrape pick ctx_done ecp ecp_read
        = Some ([LockR, UnlockR], lastResult ecp_read, None))
   \<and> (ready_closed ecp \<and> ctx_done \<longrightarrow>
      execCachingProxy_Scrape pick ctx_done ecp ecp_read
        = (case pick of
             ResultReady \<Rightarrow> Some ([LockR, UnlockR], lastResult ecp_read, None)
           | ContextDone \<Rightarrow> Some ([], Some [], Some ErrScrapeTimeoutBeforeExecFinished)))"
  by (cases pick) (simp_all add: execCachingProxy_Scrape_def execCachingProxy_Scrape_select_def)

theorem execCachingProxy_Scrape_outcomes_witness:
  "execCachingProxy_Scrape ResultReady False newExecCachingProxy newExecCachingProxy = None
   \<and> execCachingProxy_Scrape ResultReady True newExecCachingProxy newExecCachingProxy
       = Some ([], Some [], Some ErrScrapeTimeoutBeforeExecFinished)
   \<and> execCachingProxy_Scrape ContextDone False
        \<lparr>lastExec = 2, lastResult = Some [3, 4], ready_closed = True, rdyCh_nil = True\<rparr>
        \<lparr>lastExec = 3, lastResult = Some [5], ready_closed = True, rdyCh_nil = True\<rparr>
       = Some ([LockR, UnlockR], Some [5], None)
   \<and> execCachingProxy_Scrape ContextDone True
        \<lparr>lastExec = 2, lastResult = Some [3, 4], ready_closed = True, rdyCh_nil = True\<rparr>
        \<lparr>lastExec = 3, lastResult = Some [5], ready_closed = True, rdyCh_nil = True\<rparr>
       = Some ([], Some [], Some ErrScrapeTimeoutBeforeExecFinished)"
  using execCachingProxy_Scrape_outcomes[of newExecCachingProxy False ResultReady newExecCachingProxy]
    execCachingProxy_Scrape_outcomes[of newExecCachingProxy True ResultReady newExecCachingProxy]
    execCachingProxy_Scrape_outcomes[of
        "\<lparr>lastExec = 2, lastResult = Some [3, 4], ready_closed = True, rdyCh_nil = True\<rparr>" False ContextDone
        "\<lparr>lastExec = 3, lastResult = Some [5], ready_closed = True, rdyCh_nil = True\<rparr>"]
    execCachingProxy_Scrape_outcomes[of
        "\<lparr>lastExec = 2, lastResult = Some [3, 4], ready_closed = True, rdyCh_nil = True\<rparr>" True ContextDone
        "\<lparr>lastExec = 3, lastResult = Some [5], ready_closed = True, rdyCh_nil = True\<rparr>"]
  by (simp add: newExecCachingProxy_def)

text \<open>
  As written, claim C9 has every \<open>Scrape\<close> return families of its own. Two calls served from
  one cache generation return the very same pointers.
\<close>

theorem Scrape_shares_families_counterexample:
  "execCachingProxy_execer [(2, \<lparr>stdoutPipe_ret = None, start_ret = None, decodeMetrics_ret = (Some [3, 4], None),
                 kill_ret = None\<rparr>)] newExecCachingProxy
     = Inr \<lparr>lastExec = 2, lastResult = Some [3, 4], ready_closed = True, rdyCh_nil = True\<rparr>
   \<and> execCachingProxy_Scrape ResultReady False
        \<lparr>lastExec = 2, lastResult = Some [3, 4], ready_closed = True, rdyCh_nil = True\<rparr>
        \<lparr>lastExec = 2, lastResult = Some [3, 4], ready_closed = True, rdyCh_nil = True\<rparr>
       = Some ([LockR, UnlockR], Some [3, 4], None)
   \<and> execCachingProxy_Scrape ResultReady True
        \<lparr>lastExec = 2, lastResult = Some [3, 4], ready_closed = True, rdyCh_nil = True\<rparr>
        \<lparr>lastExec = 2, lastResult = Some [3, 4], ready_closed = True, rdyCh_nil = True\<rparr>
       = Some ([LockR, UnlockR], Some [3, 4], None)
   \<and> families (Some [3, 4]) \<inter> families (Some [3, 4]) = {3, 4}"
  by (simp add: execCachingProxy_execer_iteration_def newExecCachingProxy_def execCachingProxy_Scrape_def
      execCachingProxy_Scrape_select_def families_def)

text \<open>
  Claim C9, amended. A call of \<open>execCachingProxy.Scrape\<close> that returns without error
  returns what \<open>lastResult\<close> holds at its read: the same family pointers in the same
  order. Two such calls that read the same cache generation return the same list of
  pointers, hence the same families.
\<close>

theorem Scrape_returns_cached_slice:
  assumes "execCachingProxy_Scrape pick1 ctx_done1 ecp1 ecp_read = Some (ev1, m1, None)"
    and "execCachingProxy_Scrape pick2 ctx_done2 ecp2 ecp_read = Some (ev2, m2, None)"
  shows "m1 = lastResult ecp_read \<and> m2 = lastResult ecp_read \<and> families m1 = families m2"
  using assms
  by (auto simp: execCachingProxy_Scrape_def split: option.splits select_case.splits)

theorem Scrape_returns_cached_slice_witness:
  "execCachingProxy_Scrape ResultReady False
        \<lparr>lastExec = 2, lastResult = Some [3, 4], ready_closed = True, rdyCh_nil = True\<rparr>
        \<lparr>lastExec = 2, lastResult = Some [3, 4], ready_closed = True, rdyCh_nil = True\<rparr>
       = Some ([LockR, UnlockR], Some [3, 4], None)
   \<and> execCachingProxy_Scrape ResultReady True
        \<lparr>lastExec = 2, lastResult = Some [3, 4], ready_closed = True, rdyCh_nil = True\<rparr>
        \<lparr>lastExec = 2, lastResult = Some [3, 4], ready_closed = True, rdyCh_nil = True\<rparr>
       = Some ([LockR, UnlockR], Some [3, 4], None)
   \<and> families (Some [3, 4]) = families (lastResult
        \<lparr>lastExec = 2, lastResult = Some [3, 4], ready_closed = True, rdyCh_nil = True\<rparr>)"
proof -
  let ?ecp = "\<lparr>lastExec = 2, lastResult = Some [3, 4], ready_closed = True, rdyCh_nil = True\<rparr>"
  have h1: "execCachingProxy_Scrape ResultReady False ?ecp ?ecp = Some ([LockR, UnlockR], Some [3, 4], None)"
    by (simp add: execCachingProxy_Scrape_def execCachingProxy_Scrape_select_def)
  have h2: "execCachingProxy_Scrape ResultReady True ?ecp ?ecp = Some ([LockR, UnlockR], Some [3, 4], None)"
    by (simp add: execCachingProxy_Scrape_def execCachingProxy_Scrape_select_def)
  show ?thesis
    using h1 h2 Scrape_returns_cached_slice[OF h1 h2] by simp
qed

section \<open>Properties of NewMetricReverseProxy\<close>

lemma set_additional_labels_reserved:
  "reverseProxyNameLabel \<in> fst ` set kvs \<Longrightarrow>
   set_additional_labels kvs l = Inl ErrNameFieldOverrideAttempted"
  by (induction kvs arbitrary: l) auto

lemma set_additional_labels_ok:
  "reverseProxyNameLabel \<notin> fst ` set kvs \<Longrightarrow> \<exists>l'. set_additional_labels kvs l = Inr l'"
  by (induction kvs arbitrary: l) auto

lemma known_exporter_base:
  "known_exporter e \<Longrightarrow> \<exists>b p. GetBaseExporter e = Inr b \<and> new_exporter e = Some p \<and> exporter_name e = Some (Name b)"
  by (cases e) auto

lemma add_backends_step:
  assumes "known_exporter x" "\<not> overrides_name_label x" "exporter_name x = Some n" "n \<notin> used"
  shows "\<exists>bs'. add_backends (x # rest) used bs = add_backends rest (insert n used) bs'"
proof -
  obtain b p where b: "GetBaseExporter x = Inr b" "new_exporter x = Some p" "exporter_name x = Some (Name b)"
    using known_exporter_base[OF assms(1)] by blast
  have "reverseProxyNameLabel \<notin> fst ` set (Labels b)"
    using assms(2) b(1) by simp
  then obtain l' where
    "set_additional_labels (Labels b) (if \<not> NoRewrite b then [(reverseProxyNameLabel, Name b)] else []) = Inr l'"
    using set_additional_labels_ok by blast
  then show ?thesis
    using b assms(3,4) by (auto simp del: exporter_name.simps)
qed

lemma add_backends_override:
  assumes "known_exporter x" "overrides_name_label x" "exporter_name x = Some n" "n \<notin> used"
  shows "add_backends (x # rest) used bs = Inr (Inl ErrNameFieldOverrideAttempted)"
proof -
  obtain b p where b: "GetBaseExporter x = Inr b" "new_exporter x = Some p" "exporter_name x = Some (Name b)"
    using known_exporter_base[OF assms(1)] by blast
  have "reverseProxyNameLabel \<in> fst ` set (Labels b)"
    using assms(2) b(1) by simp
  then have
    "set_additional_labels (Labels b) (if \<not> NoRewrite b then [(reverseProxyNameLabel, Name b)] else [])
       = Inl ErrNameFieldOverrideAttempted"
    by (rule set_additional_labels_reserved)
  then show ?thesis
    using b assms(3,4) by (auto simp del: exporter_name.simps)
qed

lemma add_backends_name_used:
  assumes "known_exporter x" "exporter_name x = Some n" "n \<in> used"
  shows "add_backends (x # rest) used bs = Inr (Inl ErrExporterNameUsedTwice)"
proof -
  obtain b p where b: "GetBaseExporter x = Inr b" "new_exporter x = Some p" "exporter_name x = Some (Name b)"
    using known_exporter_base[OF assms(1)] by blast
  then show ?thesis
    using assms(2,3) by (auto simp del: exporter_name.simps)
qed

text \<open>A prefix of backends that pass every check only adds their names to \<open>usedNames\<close>.\<close>

lemma add_backends_prefix:
  assumes "\<forall>e\<in>set pre. known_exporter e \<and> \<not> overrides_name_label e"
    and "distinct (map exporter_name pre)"
    and "\<forall>e\<in>set pre. \<forall>n. exporter_name e = Some n \<longrightarrow> n \<notin> used"
  shows "\<exists>bs'. add_backends (pre @ rest) used bs =
               add_backends rest (used \<union> {n. Some n \<in> exporter_name ` set pre}) bs'"
  using assms
proof (induction pre arbitrary: used bs)
  case Nil
  have "add_backends ([] @ rest) used bs = add_backends rest (used \<union> {n. Some n \<in> exporter_name ` set []}) bs"
    by simp
  then show ?case by blast
next
  case (Cons x pre)
  obtain n where n: "exporter_name x = Some n"
    using Cons.prems(1) known_exporter_base[of x] by auto
  have nu: "n \<notin> used" using Cons.prems(3) n by simp
  obtain bs1 where s1: "add_backends (x # (pre @ rest)) used bs = add_backends (pre @ rest) (insert n used) bs1"
    using add_backends_step[of x n used "pre @ rest" bs] Cons.prems(1) n nu by auto
  have d: "\<forall>e\<in>set pre. \<forall>m. exporter_name e = Some m \<longrightarrow> m \<notin> insert n used"
  proof (intro ballI allI impI)
    fix e m assume e: "e \<in> set pre" "exporter_name e = Some m"
    have "m \<notin> used" using Cons.prems(3) e by simp
    moreover have "m \<noteq> n"
    proof
      assume "m = n"
      then have "exporter_name x \<in> exporter_name ` set pre" using e n by (metis imageI)
      then show False using Cons.prems(2) by simp
    qed
    ultimately show "m \<notin> insert n used" by simp
  qed
  obtain bs2 where s2: "add_backends (pre @ rest) (insert n used) bs1 =
       add_backends rest (insert n used \<union> {m. Some m \<in> exporter_name ` set pre}) bs2"
    using Cons.IH[of "insert n used" bs1] Cons.prems(1,2) d by auto
  have "insert n used \<union> {m. Some m \<in> exporter_name ` set pre}
        = used \<union> {m. Some m \<in> exporter_name ` set (x # pre)}"
    using n by (auto simp del: exporter_name.simps)
  then show ?case using s1 s2 by (auto simp del: exporter_name.simps)
qed

lemma add_backends_success:
  assumes "add_backends es used bs = Inr (Inr bs')"
  shows "(\<forall>e\<in>set es. known_exporter e \<and> \<not> overrides_name_label e
            \<and> (\<exists>n. exporter_name e = Some n \<and> n \<notin> used))
         \<and> distinct (map exporter_name es)"
  using assms
proof (induction es arbitrary: used bs)
  case Nil
  then show ?case by simp
next
  case (Cons x es)
  from Cons.prems obtain b where b: "GetBaseExporter x = Inr b"
    by (cases "GetBaseExporter x") auto
  from Cons.prems b obtain p where p: "new_exporter x = Some p"
    by (cases "new_exporter x") auto
  from Cons.prems b p have nu: "Name b \<notin> used"
    by (auto split: if_splits)
  from Cons.prems b p nu obtain l where l:
    "set_additional_labels (Labels b) (if \<not> NoRewrite b then [(reverseProxyNameLabel, Name b)] else []) = Inr l"
    by (cases "set_additional_labels (Labels b) (if \<not> NoRewrite b then [(reverseProxyNameLabel, Name b)] else [])") auto
  have no: "reverseProxyNameLabel \<notin> fst ` set (Labels b)"
    using l set_additional_labels_reserved by fastforce
  have rest: "add_backends es (insert (Name b) used) (bs @ [RewriteProxy p l]) = Inr (Inr bs')"
    using Cons.prems b p nu l by simp
  note ih = Cons.IH[OF rest]
  have x: "known_exporter x \<and> \<not> overrides_name_label x \<and> (\<exists>n. exporter_name x = Some n \<and> n \<notin> used)"
    using b p nu no by simp
  have "exporter_name x \<notin> exporter_name ` set es"
  proof
    assume "exporter_name x \<in> exporter_name ` set es"
    then obtain e where e: "e \<in> set es" "exporter_name e = Some (Name b)" using b by auto
    then show False using ih by auto
  qed
  then show ?case using ih x by (auto simp del: exporter_name.simps known_exporter.simps overrides_name_label.simps)
qed

lemma NewMetricReverseProxy_handler:
  "NewMetricReverseProxy cfg = Inr (Some h, e) \<Longrightarrow>
   \<exists>bs. add_backends (Exporters cfg) {} [] = Inr (Inr bs)"
  by (auto simp: NewMetricReverseProxy_def split: sum.splits)

lemma NewMetricReverseProxy_error:
  "add_backends (Exporters cfg) {} [] = Inr (Inl e) \<Longrightarrow>
   NewMetricReverseProxy cfg = Inr (None, Some e)"
  by (simp add: NewMetricReverseProxy_def)

text \<open>
  As written, claim C7 names \<open>ErrNameFieldOverrideAttempted\<close> as the error of every
  configuration with a reserved label. A re-used name is found first here.
\<close>

theorem reserved_label_counterexample:
  "overrides_name_label (FileExporterConfig \<lparr>Name = ''a'', NoRewrite = False,
        Labels = [(''exported_instance'', ''x'')]\<rparr> ''/tmp/b.prom'')
   \<and> NewMetricReverseProxy \<lparr>Path = ''/metrics'',
        Exporters = [FileExporterConfig \<lparr>Name = ''a'', NoRewrite = False, Labels = []\<rparr> ''/tmp/a.prom'',
                     FileExporterConfig \<lparr>Name = ''a'', NoRewrite = False,
                        Labels = [(''exported_instance'', ''x'')]\<rparr> ''/tmp/b.prom''],
        Auth = AuthTypeNone, HtPasswdFile = []\<rparr>
     = Inr (None, Some ErrExporterNameUsedTwice)"
  by (simp add: NewMetricReverseProxy_def reverseProxyNameLabel_def)

text \<open>
  Claim C7, amended. If some backend of the configuration has the reverse-proxy name label
  among its additional labels, \<open>NewMetricReverseProxy\<close> returns no handler, whatever the
  backend's \<open>NoRewrite\<close>. The backends are checked in order and the first failing check
  decides the error: it is \<open>ErrNameFieldOverrideAttempted\<close> when the backends before the
  offending one have known types and no reserved label, and the names up to and including
  the offending one are pairwise distinct and its type is known.
\<close>

theorem reserved_label_rejected:
  assumes "overrides_name_label x" and "Exporters cfg = pre @ x # post"
  shows "(\<forall>h e. NewMetricReverseProxy cfg \<noteq> Inr (Some h, e)) \<and>
         ((\<forall>e\<in>set pre. known_exporter e \<and> \<not> overrides_name_label e) \<and> known_exporter x \<and>
          distinct (map exporter_name (pre @ [x])) \<longrightarrow>
          NewMetricReverseProxy cfg = Inr (None, Some ErrNameFieldOverrideAttempted))"
proof (intro conjI allI impI)
  fix h e
  show "NewMetricReverseProxy cfg \<noteq> Inr (Some h, e)"
  proof
    assume "NewMetricReverseProxy cfg = Inr (Some h, e)"
    then obtain bs where "add_backends (Exporters cfg) {} [] = Inr (Inr bs)"
      using NewMetricReverseProxy_handler by blast
    from add_backends_success[OF this] have "\<not> overrides_name_label x"
      using assms(2) by auto
    then show False using assms(1) by simp
  qed
next
  assume a: "(\<forall>e\<in>set pre. known_exporter e \<and> \<not> overrides_name_label e) \<and> known_exporter x \<and>
          distinct (map exporter_name (pre @ [x]))"
  then obtain n where n: "exporter_name x = Some n"
    using known_exporter_base[of x] by auto
  have d: "distinct (map exporter_name pre)" "exporter_name x \<notin> exporter_name ` set pre"
    using a by auto
  obtain bs' where "add_backends (pre @ x # post) {} [] =
       add_backends (x # post) ({} \<union> {m. Some m \<in> exporter_name ` set pre}) bs'"
    using add_backends_prefix[of pre "{}" "x # post" "[]"] a d(1) by auto
  moreover have "n \<notin> {} \<union> {m. Some m \<in> exporter_name ` set pre}"
    using d(2) n by auto
  ultimately have "add_backends (Exporters cfg) {} [] = Inr (Inl ErrNameFieldOverrideAttempted)"
    using add_backends_override[of x n _ post bs'] a assms n by simp
  then show "NewMetricReverseProxy cfg = Inr (None, Some ErrNameFieldOverrideAttempted)"
    by (rule NewMetricReverseProxy_error)
qed

theorem reserved_label_rejected_witness:
  "overrides_name_label (ExecExporterConfig \<lparr>Name = ''b'', NoRewrite = True,
        Labels = [(''env'', ''prod''), (''exported_instance'', ''x'')]\<rparr> ''/bin/b'' [])
   \<and> NewMetricReverseProxy \<lparr>Path = ''/metrics'',
        Exporters = [FileExporterConfig \<lparr>Name = ''a'', NoRewrite = False, Labels = []\<rparr> ''/tmp/a.prom'',
                     ExecExporterConfig \<lparr>Name = ''b'', NoRewrite = True,
                        Labels = [(''env'', ''prod''), (''exported_instance'', ''x'')]\<rparr> ''/bin/b'' [],
                     FileExporterConfig \<lparr>Name = ''c'', NoRewrite = False, Labels = []\<rparr> ''/tmp/c.prom''],
        Auth = AuthTypeNone, HtPasswdFile = []\<rparr>
     = Inr (None, Some ErrNameFieldOverrideAttempted)"
proof -
  let ?x = "ExecExporterConfig \<lparr>Name = ''b'', NoRewrite = True,
        Labels = [(''env'', ''prod''), (''exported_instance'', ''x'')]\<rparr> ''/bin/b'' []"
  let ?pre = "[FileExporterConfig \<lparr>Name = ''a'', NoRewrite = False, Labels = []\<rparr> ''/tmp/a.prom'']"
  let ?post = "[FileExporterConfig \<lparr>Name = ''c'', NoRewrite = False, Labels = []\<rparr> ''/tmp/c.prom'']"
  let ?cfg = "\<lparr>Path = ''/metrics'', Exporters = ?pre @ ?x # ?post,
        Auth = AuthTypeNone, HtPasswdFile = []\<rparr>"
  have h1: "overrides_name_label ?x" by (simp add: reverseProxyNameLabel_def)
  have h2: "Exporters ?cfg = ?pre @ ?x # ?post" by simp
  have h3: "(\<forall>e\<in>set ?pre. known_exporter e \<and> \<not> overrides_name_label e) \<and> known_exporter ?x \<and>
          distinct (map exporter_name (?pre @ [?x]))" by simp
  show ?thesis
    using h1 h3 reserved_label_rejected[OF h1 h2] by simp
qed

text \<open>
  As written, claim C8 names \<open>ErrExporterNameUsedTwice\<close> as the error of every configuration
  with a re-used name. The reserved label of the first backend is found first here.
\<close>

theorem name_reuse_counterexample:
  "exporter_name (FileExporterConfig \<lparr>Name = ''a'', NoRewrite = False,
        Labels = [(''exported_instance'', ''x'')]\<rparr> ''/tmp/a.prom'') = Some ''a''
   \<and> exporter_name (FileExporterConfig \<lparr>Name = ''a'', NoRewrite = False, Labels = []\<rparr> ''/tmp/b.prom'') = Some ''a''
   \<and> NewMetricReverseProxy \<lparr>Path = ''/metrics'',
        Exporters = [FileExporterConfig \<lparr>Name = ''a'', NoRewrite = False,
                        Labels = [(''exported_instance'', ''x'')]\<rparr> ''/tmp/a.prom'',
                     FileExporterConfig \<lparr>Name = ''a'', NoRewrite = False, Labels = []\<rparr> ''/tmp/b.prom''],
        Auth = AuthTypeNone, HtPasswdFile = []\<rparr>
     = Inr (None, Some ErrNameFieldOverrideAttempted)"
  by (simp add: NewMetricReverseProxy_def reverseProxyNameLabel_def)

text \<open>
  Claim C8, amended. If two backends of the configuration carry the same name,
  \<open>NewMetricReverseProxy\<close> returns no handler. The backends are checked in order and the
  first failing check decides the error: it is \<open>ErrExporterNameUsedTwice\<close> when the backends
  before the second bearer of the name have known types, no reserved label and pairwise
  distinct names, and the second bearer has a known type. Hence, whenever a handler is
  returned, every backend has a name and the names are pairwise distinct.
\<close>

theorem exporter_names_distinct:
  "(exporter_name x = Some n \<and> exporter_name y = Some n \<and> Exporters cfg = pre @ x # mid @ y # post \<longrightarrow>
      (\<forall>h e. NewMetricReverseProxy cfg \<noteq> Inr (Some h, e)) \<and>
      ((\<forall>e\<in>set (pre @ x # mid). known_exporter e \<and> \<not> overrides_name_label e) \<and>
       distinct (map exporter_name (pre @ x # mid)) \<and> known_exporter y \<longrightarrow>
       NewMetricReverseProxy cfg = Inr (None, Some ErrExporterNameUsedTwice)))
   \<and> (NewMetricReverseProxy cfg' = Inr (Some h', e') \<longrightarrow>
        distinct (map exporter_name (Exporters cfg')) \<and> None \<notin> exporter_name ` set (Exporters cfg'))"
proof (intro conjI impI allI)
  fix h e
  assume a: "exporter_name x = Some n \<and> exporter_name y = Some n \<and> Exporters cfg = pre @ x # mid @ y # post"
  show "NewMetricReverseProxy cfg \<noteq> Inr (Some h, e)"
  proof
    assume "NewMetricReverseProxy cfg = Inr (Some h, e)"
    then obtain bs where "add_backends (Exporters cfg) {} [] = Inr (Inr bs)"
      using NewMetricReverseProxy_handler by blast
    from add_backends_success[OF this] have "distinct (map exporter_name (Exporters cfg))"
      by simp
    then show False using a by (auto simp del: exporter_name.simps)
  qed
next
  assume a: "exporter_name x = Some n \<and> exporter_name y = Some n \<and> Exporters cfg = pre @ x # mid @ y # post"
    and b: "(\<forall>e\<in>set (pre @ x # mid). known_exporter e \<and> \<not> overrides_name_label e) \<and>
       distinct (map exporter_name (pre @ x # mid)) \<and> known_exporter y"
  obtain bs' where "add_backends ((pre @ x # mid) @ y # post) {} [] =
       add_backends (y # post) ({} \<union> {m. Some m \<in> exporter_name ` set (pre @ x # mid)}) bs'"
    using add_backends_prefix[of "pre @ x # mid" "{}" "y # post" "[]"] b by auto
  moreover have "n \<in> {} \<union> {m. Some m \<in> exporter_name ` set (pre @ x # mid)}"
    using a by (auto simp del: exporter_name.simps intro!: image_eqI[where x = x])
  ultimately have "add_backends (Exporters cfg) {} [] = Inr (Inl ErrExporterNameUsedTwice)"
    using add_backends_name_used[of y n _ post bs'] a b by simp
  then show "NewMetricReverseProxy cfg = Inr (None, Some ErrExporterNameUsedTwice)"
    by (rule NewMetricReverseProxy_error)
next
  assume "NewMetricReverseProxy cfg' = Inr (Some h', e')"
  then obtain bs where bs: "add_backends (Exporters cfg') {} [] = Inr (Inr bs)"
    using NewMetricReverseProxy_handler by blast
  from add_backends_success[OF bs]
  show "distinct (map exporter_name (Exporters cfg'))" by simp
  from add_backends_success[OF bs]
  show "None \<notin> exporter_name ` set (Exporters cfg')"
    by (auto simp del: exporter_name.simps)
qed

theorem exporter_names_distinct_witness:
  "NewMetricReverseProxy \<lparr>Path = ''/metrics'',
        Exporters = [FileExporterConfig \<lparr>Name = ''a'', NoRewrite = False, Labels = []\<rparr> ''/tmp/a.prom'',
                     HTTPExporterConfig \<lparr>Name = ''b'', NoRewrite = False, Labels = []\<rparr> ''http://b/metrics'' 5 False,
                     ExecExporterConfig \<lparr>Name = ''a'', NoRewrite = True, Labels = []\<rparr> ''/bin/a'' []],
        Auth = AuthTypeNone, HtPasswdFile = []\<rparr>
     = Inr (None, Some ErrExporterNameUsedTwice)
   \<and> NewMetricReverseProxy \<lparr>Path = ''/metrics'',
        Exporters = [FileExporterConfig \<lparr>Name = ''a'', NoRewrite = False, Labels = []\<rparr> ''/tmp/a.prom'',
                     HTTPExporterConfig \<lparr>Name = ''b'', NoRewrite = False, Labels = []\<rparr> ''http://b/metrics'' 5 False],
        Auth = AuthTypeNone, HtPasswdFile = []\<rparr>
     = Inr (Some \<lparr>metricPath = ''/metrics'',
                  backends = [RewriteProxy (FileProxy ''/tmp/a.prom'') [(''exported_instance'', ''a'')],
                              RewriteProxy (NetProxy ''http://b/metrics'' 5 False) [(''exported_instance'', ''b'')]],
                  handler_of = serveMetricsHTTP\<rparr>, None)
   \<and> distinct (map exporter_name
        [FileExporterConfig \<lparr>Name = ''a'', NoRewrite = False, Labels = []\<rparr> ''/tmp/a.prom'',
         HTTPExporterConfig \<lparr>Name = ''b'', NoRewrite = False, Labels = []\<rparr> ''http://b/metrics'' 5 False])"
proof -
  let ?x = "FileExporterConfig \<lparr>Name = ''a'', NoRewrite = False, Labels = []\<rparr> ''/tmp/a.prom''"
  let ?m = "HTTPExporterConfig \<lparr>Name = ''b'', NoRewrite = False, Labels = []\<rparr> ''http://b/metrics'' 5 False"
  let ?y = "ExecExporterConfig \<lparr>Name = ''a'', NoRewrite = True, Labels = []\<rparr> ''/bin/a'' []"
  let ?cfg = "\<lparr>Path = ''/metrics'', Exporters = [] @ ?x # [?m] @ ?y # [],
        Auth = AuthTypeNone, HtPasswdFile = []\<rparr>"
  let ?cfg' = "\<lparr>Path = ''/metrics'', Exporters = [?x, ?m], Auth = AuthTypeNone, HtPasswdFile = []\<rparr>"
  let ?h = "\<lparr>metricPath = ''/metrics'',
                  backends = [RewriteProxy (FileProxy ''/tmp/a.prom'') [(''exported_instance'', ''a'')],
                              RewriteProxy (NetProxy ''http://b/metrics'' 5 False) [(''exported_instance'', ''b'')]],
                  handler_of = serveMetricsHTTP\<rparr>"
  have ok: "NewMetricReverseProxy ?cfg' = Inr (Some ?h, None)"
    by (simp add: NewMetricReverseProxy_def reverseProxyNameLabel_def)
  have h1: "exporter_name ?x = Some ''a'' \<and> exporter_name ?y = Some ''a''
            \<and> Exporters ?cfg = [] @ ?x # [?m] @ ?y # []" by simp
  have h2: "(\<forall>e\<in>set ([] @ ?x # [?m]). known_exporter e \<and> \<not> overrides_name_label e) \<and>
       distinct (map exporter_name ([] @ ?x # [?m])) \<and> known_exporter ?y"
    by (simp add: reverseProxyNameLabel_def)
  show ?thesis
    using h1 h2 ok
      exporter_names_distinct[of ?x "''a''" ?y ?cfg "[]" "[?m]" "[]" ?cfg' ?h None]
    by simp
qed

section \<open>Properties of the interleaved execProxy\<close>

text \<open>The steps, by label.\<close>

lemma step_cases:
  assumes "step l s = Some s'"
  obtains
    (WStep) "l = WStep" "execProxy_execer_step s = Some s'" "\<not> crashed s"
  | (WExec) run where "l = WExec run" "execProxy_execer_doExec run s = Some s'" "\<not> crashed s"
  | (WNext) ch where "l = WNext ch" "execProxy_execer_range ch s = Some s'" "\<not> crashed s"
  | (CStep) i where "l = CStep i" "execProxy_Scrape_step i s = Some s'" "\<not> crashed s"
  | (CRecv) i where "l = CRecv i" "execProxy_Scrape_recv i s = Some s'" "\<not> crashed s"
  | (CDone) i where "l = CDone i" "execProxy_Scrape_ctxDone i s = Some s'" "\<not> crashed s"
  | (Cancel) i where "l = Cancel i" "s' = s\<lparr>ctx_cancelled := (ctx_cancelled s)(i := True)\<rparr>" "\<not> crashed s"
  using assms by (cases l) (auto simp: step_def split: if_splits)

text \<open>The steps of the worker and of a caller, by where the goroutine is.\<close>

lemma execProxy_execer_step_disj:
  assumes "execProxy_execer_step s = Some s'"
  shows 
      "(wpc s = W_Start \<and> s' = s\<lparr>wpc := W_Recv\<rparr>)
    \<or> (wpc s = W_Lock1 \<and> waitingMtx s = None \<and>
      s' = s\<lparr>waitingMtx := Some Worker, wpc := W_Locked1\<rparr>)
    \<or> (wpc s = W_Locked1 \<and> waitingScrapes s \<noteq> {} \<and>
      s' = s\<lparr>waitingMtx := None, wpc := W_Exec\<rparr>)
    \<or> (wpc s = W_Locked1 \<and> waitingScrapes s = {} \<and>
      s' = s\<lparr>waitingMtx := None, wpc := W_Start\<rparr>)
    \<or> (wpc s = W_Lock2 \<and> waitingMtx s = None \<and>
      s' = s\<lparr>waitingMtx := Some Worker, wpc := W_Range, todo := waitingScrapes s\<rparr>)
    \<or> (wpc s = W_Range \<and> todo s = {} \<and>
      s' = s\<lparr>waitingScrapes := {}, waitingMtx := None, wpc := W_Start\<rparr>)"
proof (cases "wpc s")
  case W_Start
  then show ?thesis using assms by (simp add: execProxy_execer_step_def)
next
  case W_Recv
  then show ?thesis using assms by (simp add: execProxy_execer_step_def)
next
  case W_Lock1
  then show ?thesis using assms by (simp add: execProxy_execer_step_def split: if_splits)
next
  case W_Locked1
  then show ?thesis using assms by (simp add: execProxy_execer_step_def split: if_splits)
next
  case W_Exec
  then show ?thesis using assms by (simp add: execProxy_execer_step_def)
next
  case W_Lock2
  then show ?thesis using assms by (simp add: execProxy_execer_step_def split: if_splits)
next
  case W_Range
  then show ?thesis using assms by (simp add: execProxy_execer_step_def split: if_splits)
next
  case W_Send
  then show ?thesis using assms by (simp add: execProxy_execer_step_def)
qed

lemma execProxy_Scrape_step_disj:
  assumes "execProxy_Scrape_step i s = Some s'"
  shows
      "(cpc s i = C_Lock1 \<and> waitingMtx s = None \<and>
      s' = s\<lparr>waitingMtx := Some (Caller i), cpc := (cpc s)(i := C_Locked1)\<rparr>)
    \<or> (cpc s i = C_Locked1 \<and>
      s' = s\<lparr>waitingScrapes := insert i (waitingScrapes s), waitingMtx := None,
               cpc := (cpc s)(i := C_Nudge)\<rparr>)
    \<or> (cpc s i = C_Nudge \<and> wpc s = W_Recv \<and>
      s' = s\<lparr>wpc := W_Lock1, cpc := (cpc s)(i := C_Wait)\<rparr>)
    \<or> (cpc s i = C_Nudge \<and> wpc s \<noteq> W_Recv \<and>
      s' = s\<lparr>cpc := (cpc s)(i := C_Wait)\<rparr>)
    \<or> (cpc s i = C_Lock2 \<and> waitingMtx s = None \<and>
      s' = s\<lparr>waitingMtx := Some (Caller i), cpc := (cpc s)(i := C_Locked2)\<rparr>)
    \<or> (cpc s i = C_Locked2 \<and>
      s' = s\<lparr>waitingScrapes := waitingScrapes s - {i}, waitingMtx := None,
               cpc := (cpc s)(i := C_Return),
               returned := (returned s)(i := Some (None, Some ErrScrapeTimeoutBeforeExecFinished))\<rparr>)"
proof (cases "cpc s i")
  case C_Lock1
  then show ?thesis using assms by (simp add: execProxy_Scrape_step_def split: if_splits)
next
  case C_Locked1
  then show ?thesis using assms by (simp add: execProxy_Scrape_step_def)
next
  case C_Nudge
  then show ?thesis using assms by (simp add: execProxy_Scrape_step_def split: if_splits)
next
  case C_Wait
  then show ?thesis using assms by (simp add: execProxy_Scrape_step_def)
next
  case C_Lock2
  then show ?thesis using assms by (simp add: execProxy_Scrape_step_def split: if_splits)
next
  case C_Locked2
  then show ?thesis using assms by (simp add: execProxy_Scrape_step_def)
next
  case C_Return
  then show ?thesis using assms by (simp add: execProxy_Scrape_step_def)
qed

text \<open>Every step, with the state it leads to.\<close>

lemma step_elim [consumes 1, case_names park lock1 check_some check_none lock2 clear
    exec_panic exec_ok pick c_lock1 register nudge_sent nudge_dropped c_lock2 delete
    recv_panic recv ctx_done cancel]:
  assumes "step l s = Some s'"
  obtains
    "l = WStep" "wpc s = W_Start" "s' = s\<lparr>wpc := W_Recv\<rparr>"
  | "l = WStep" "wpc s = W_Lock1" "waitingMtx s = None"
      "s' = s\<lparr>waitingMtx := Some Worker, wpc := W_Locked1\<rparr>"
  | "l = WStep" "wpc s = W_Locked1" "waitingScrapes s \<noteq> {}"
      "s' = s\<lparr>waitingMtx := None, wpc := W_Exec\<rparr>"
  | "l = WStep" "wpc s = W_Locked1" "waitingScrapes s = {}"
      "s' = s\<lparr>waitingMtx := None, wpc := W_Start\<rparr>"
  | "l = WStep" "wpc s = W_Lock2" "waitingMtx s = None"
      "s' = s\<lparr>waitingMtx := Some Worker, wpc := W_Range, todo := waitingScrapes s\<rparr>"
  | "l = WStep" "wpc s = W_Range" "todo s = {}"
      "s' = s\<lparr>waitingScrapes := {}, waitingMtx := None, wpc := W_Start\<rparr>"
  | run p where "l = WExec run" "wpc s = W_Exec" "snd (doExec run) = Inl p"
      "s' = s\<lparr>crashed := True\<rparr>"
  | run r where "l = WExec run" "wpc s = W_Exec" "snd (doExec run) = Inr r"
      "s' = s\<lparr>heap := (heap s)(next_ptr s := Some r), result := next_ptr s,
               next_ptr := Suc (next_ptr s), wpc := W_Lock2\<rparr>"
  | ch where "l = WNext ch" "wpc s = W_Range" "ch \<in> todo s"
      "s' = s\<lparr>wpc := W_Send, cur := ch, todo := todo s - {ch}\<rparr>"
  | i where "l = CStep i" "cpc s i = C_Lock1" "waitingMtx s = None"
      "s' = s\<lparr>waitingMtx := Some (Caller i), cpc := (cpc s)(i := C_Locked1)\<rparr>"
  | i where "l = CStep i" "cpc s i = C_Locked1"
      "s' = s\<lparr>waitingScrapes := insert i (waitingScrapes s), waitingMtx := None,
               cpc := (cpc s)(i := C_Nudge)\<rparr>"
  | i where "l = CStep i" "cpc s i = C_Nudge" "wpc s = W_Recv"
      "s' = s\<lparr>wpc := W_Lock1, cpc := (cpc s)(i := C_Wait)\<rparr>"
  | i where "l = CStep i" "cpc s i = C_Nudge" "wpc s \<noteq> W_Recv"
      "s' = s\<lparr>cpc := (cpc s)(i := C_Wait)\<rparr>"
  | i where "l = CStep i" "cpc s i = C_Lock2" "waitingMtx s = None"
      "s' = s\<lparr>waitingMtx := Some (Caller i), cpc := (cpc s)(i := C_Locked2)\<rparr>"
  | i where "l = CStep i" "cpc s i = C_Locked2"
      "s' = s\<lparr>waitingScrapes := waitingScrapes s - {i}, waitingMtx := None,
               cpc := (cpc s)(i := C_Return),
               returned := (returned s)(i := Some (None, Some ErrScrapeTimeoutBeforeExecFinished))\<rparr>"
  | i where "l = CRecv i" "cpc s i = C_Wait" "wpc s = W_Send" "cur s = i" "heap s (result s) = None"
      "s' = s\<lparr>crashed := True\<rparr>"
  | i r where "l = CRecv i" "cpc s i = C_Wait" "wpc s = W_Send" "cur s = i" "heap s (result s) = Some r"
      "s' = s\<lparr>received := (received s)(i := Some (result s)),
               returned := (returned s)(i := Some (mfs r, err r)),
               cpc := (cpc s)(i := C_Return), wpc := W_Range\<rparr>"
  | i where "l = CDone i" "cpc s i = C_Wait" "ctx_cancelled s i"
      "s' = s\<lparr>cpc := (cpc s)(i := C_Lock2)\<rparr>"
  | i where "l = Cancel i" "s' = s\<lparr>ctx_cancelled := (ctx_cancelled s)(i := True)\<rparr>"
  using assms
proof (cases rule: step_cases)
  case WStep
  from execProxy_execer_step_disj[OF WStep(2)] show ?thesis
    apply (elim disjE conjE)
         apply (rule that(1)[OF WStep(1)]; assumption)
        apply (rule that(2)[OF WStep(1)]; assumption)
       apply (rule that(3)[OF WStep(1)]; assumption)
      apply (rule that(4)[OF WStep(1)]; assumption)
     apply (rule that(5)[OF WStep(1)]; assumption)
    apply (rule that(6)[OF WStep(1)]; assumption)
    done
next
  case (WExec run)
  then have w: "wpc s = W_Exec" by (simp add: execProxy_execer_doExec_def split: if_splits)
  show ?thesis
  proof (cases "snd (doExec run)")
    case (Inl p)
    then have "s' = s\<lparr>crashed := True\<rparr>" using WExec w by (simp add: execProxy_execer_doExec_def)
    then show ?thesis by (rule that(7)[OF WExec(1) w Inl])
  next
    case (Inr r)
    then have "s' = s\<lparr>heap := (heap s)(next_ptr s := Some r), result := next_ptr s,
               next_ptr := Suc (next_ptr s), wpc := W_Lock2\<rparr>"
      using WExec w by (simp add: execProxy_execer_doExec_def)
    then show ?thesis by (rule that(8)[OF WExec(1) w Inr])
  qed
next
  case (WNext ch)
  then have g: "wpc s = W_Range" "ch \<in> todo s"
    and "s' = s\<lparr>wpc := W_Send, cur := ch, todo := todo s - {ch}\<rparr>"
    by (simp_all add: execProxy_execer_range_def split: if_splits)
  then show ?thesis by (intro that(9)[OF WNext(1) g])
next
  case (CStep i)
  from execProxy_Scrape_step_disj[OF CStep(2)] show ?thesis
    apply (elim disjE conjE)
         apply (rule that(10)[OF CStep(1)]; assumption)
        apply (rule that(11)[OF CStep(1)]; assumption)
       apply (rule that(12)[OF CStep(1)]; assumption)
      apply (rule that(13)[OF CStep(1)]; assumption)
     apply (rule that(14)[OF CStep(1)]; assumption)
    apply (rule that(15)[OF CStep(1)]; assumption)
    done
next
  case (CRecv i)
  then have g: "cpc s i = C_Wait" "wpc s = W_Send" "cur s = i"
    by (simp_all add: execProxy_Scrape_recv_def split: if_splits)
  show ?thesis
  proof (cases "heap s (result s)")
    case None
    then have "s' = s\<lparr>crashed := True\<rparr>" using CRecv g by (simp add: execProxy_Scrape_recv_def)
    then show ?thesis by (rule that(16)[OF CRecv(1) g None])
  next
    case (Some r)
    then have "s' = s\<lparr>received := (received s)(i := Some (result s)),
               returned := (returned s)(i := Some (mfs r, err r)),
               cpc := (cpc s)(i := C_Return), wpc := W_Range\<rparr>"
      using CRecv g by (simp add: execProxy_Scrape_recv_def)
    then show ?thesis by (rule that(17)[OF CRecv(1) g Some])
  qed
next
  case (CDone i)
  then have g: "cpc s i = C_Wait" "ctx_cancelled s i"
    and "s' = s\<lparr>cpc := (cpc s)(i := C_Lock2)\<rparr>"
    by (simp_all add: execProxy_Scrape_ctxDone_def split: if_splits)
  then show ?thesis by (intro that(18)[OF CDone(1) g])
next
  case (Cancel i)
  then show ?thesis by (intro that(19))
qed

subsection \<open>The mutex\<close>

lemma mutex_free:
  "mutex_inv s \<Longrightarrow> waitingMtx s = None \<Longrightarrow>
   wpc s \<noteq> W_Locked1 \<and> wpc s \<noteq> W_Range \<and> wpc s \<noteq> W_Send \<and> (\<forall>j. \<not> holds_mutex (cpc s j))"
  by (simp add: mutex_inv_def)

lemma mutex_worker:
  "mutex_inv s \<Longrightarrow> wpc s = W_Locked1 \<or> wpc s = W_Range \<or> wpc s = W_Send \<Longrightarrow>
   waitingMtx s = Some Worker \<and> (\<forall>j. \<not> holds_mutex (cpc s j))"
  by (cases "waitingMtx s"; cases "the (waitingMtx s)") (auto simp: mutex_inv_def)

lemma mutex_caller:
  assumes "mutex_inv s" "holds_mutex (cpc s i)"
  shows "waitingMtx s = Some (Caller i) \<and>
   wpc s \<noteq> W_Locked1 \<and> wpc s \<noteq> W_Range \<and> wpc s \<noteq> W_Send \<and>
   (\<forall>j. j \<noteq> i \<longrightarrow> \<not> holds_mutex (cpc s j))"
proof (cases "waitingMtx s")
  case None
  then show ?thesis using assms by (simp add: mutex_inv_def)
next
  case (Some g)
  show ?thesis
  proof (cases g)
    case Worker
    then show ?thesis using assms Some by (simp add: mutex_inv_def)
  next
    case (Caller k)
    then have k: "wpc s \<notin> {W_Locked1, W_Range, W_Send}" "\<forall>j. j \<noteq> k \<longrightarrow> \<not> holds_mutex (cpc s j)"
      using assms(1) Some by (simp_all add: mutex_inv_def)
    have "k = i" using k(2) assms(2) by auto
    then show ?thesis using k Some Caller by simp
  qed
qed

lemma mutex_invI_free:
  "waitingMtx s = None \<Longrightarrow> wpc s \<notin> {W_Locked1, W_Range, W_Send} \<Longrightarrow>
   (\<And>j. \<not> holds_mutex (cpc s j)) \<Longrightarrow> mutex_inv s"
  by (simp add: mutex_inv_def)

lemma mutex_invI_worker:
  "waitingMtx s = Some Worker \<Longrightarrow> wpc s \<in> {W_Locked1, W_Range, W_Send} \<Longrightarrow>
   (\<And>j. \<not> holds_mutex (cpc s j)) \<Longrightarrow> mutex_inv s"
  by (simp add: mutex_inv_def)

lemma mutex_invI_caller:
  "waitingMtx s = Some (Caller i) \<Longrightarrow> wpc s \<notin> {W_Locked1, W_Range, W_Send} \<Longrightarrow>
   holds_mutex (cpc s i) \<Longrightarrow> (\<And>j. j \<noteq> i \<Longrightarrow> \<not> holds_mutex (cpc s j)) \<Longrightarrow> mutex_inv s"
  by (simp add: mutex_inv_def)

text \<open>A step that changes neither the mutex nor who is in a critical section.\<close>

lemma mutex_inv_cong:
  assumes "mutex_inv s" "waitingMtx s' = waitingMtx s"
    "wpc s' \<in> {W_Locked1, W_Range, W_Send} \<longleftrightarrow> wpc s \<in> {W_Locked1, W_Range, W_Send}"
    "\<And>j. holds_mutex (cpc s' j) = holds_mutex (cpc s j)"
  shows "mutex_inv s'"
  using assms by (simp add: mutex_inv_def split: option.splits goroutine.splits)

lemma mutex_inv_step:
  assumes mi: "mutex_inv s" and st: "step l s = Some s'"
  shows "mutex_inv s'"
  using st
proof (cases rule: step_elim)
  case lock1
  then show ?thesis using mutex_free[OF mi] by (intro mutex_invI_worker) simp_all
next
  case check_some
  then show ?thesis using mutex_worker[OF mi] by (intro mutex_invI_free) simp_all
next
  case check_none
  then show ?thesis using mutex_worker[OF mi] by (intro mutex_invI_free) simp_all
next
  case lock2
  then show ?thesis using mutex_free[OF mi] by (intro mutex_invI_worker) simp_all
next
  case clear
  then show ?thesis using mutex_worker[OF mi] by (intro mutex_invI_free) simp_all
next
  case (c_lock1 i)
  then show ?thesis using mutex_free[OF mi]
    by (intro mutex_invI_caller[of _ i]) (simp_all add: holds_mutex_def)
next
  case (register i)
  then have "holds_mutex (cpc s i)" by (simp add: holds_mutex_def)
  from mutex_caller[OF mi this] show ?thesis using register
    by (intro mutex_invI_free) (simp_all add: holds_mutex_def)
next
  case (c_lock2 i)
  then show ?thesis using mutex_free[OF mi]
    by (intro mutex_invI_caller[of _ i]) (simp_all add: holds_mutex_def)
next
  case (delete i)
  then have "holds_mutex (cpc s i)" by (simp add: holds_mutex_def)
  from mutex_caller[OF mi this] show ?thesis using delete
    by (intro mutex_invI_free) (simp_all add: holds_mutex_def)
qed (auto intro!: mutex_inv_cong[OF mi] simp: holds_mutex_def split: if_splits)

subsection \<open>The range loop and the callers\<close>

lemma range_inv_step:
  assumes mi: "mutex_inv s" and ri: "range_inv s" and st: "step l s = Some s'"
  shows "range_inv s'"
  using st
proof (cases rule: step_elim)
  case (register i)
  then have "holds_mutex (cpc s i)" by (simp add: holds_mutex_def)
  from mutex_caller[OF mi this] show ?thesis
    using register ri by (simp add: range_inv_def)
next
  case (delete i)
  then have "holds_mutex (cpc s i)" by (simp add: holds_mutex_def)
  from mutex_caller[OF mi this] show ?thesis
    using delete ri by (simp add: range_inv_def)
qed (use ri in \<open>auto simp: range_inv_def\<close>)

lemma not_yet_registered_step:
  assumes a: "\<And>k. not_yet_registered s k"
    and st: "step l s = Some s'"
  shows "not_yet_registered s' j"
  using st
  by (cases rule: step_elim) (use a[of j] in \<open>auto simp: not_yet_registered_def\<close>)

lemma received_returns_step:
  assumes a: "\<And>k. received_returns s k"
    and st: "step l s = Some s'"
  shows "received_returns s' j"
  using st
  by (cases rule: step_elim) (use a[of j] in \<open>auto simp: received_returns_def\<close>)

lemma served_in_range_step:
  assumes mi: "mutex_inv s"
    and ri: "range_inv s"
    and n: "\<And>k. not_yet_registered s k"
    and a: "\<And>k. served_in_range s k"
    and st: "step l s = Some s'"
  shows "served_in_range s' j"
  using st
proof (cases rule: step_elim)
  case (register i)
  then have "holds_mutex (cpc s i)" by (simp add: holds_mutex_def)
  from mutex_caller[OF mi this] show ?thesis using register a[of j] n[of i]
    by (auto simp: served_in_range_def not_yet_registered_def)
next
  case (delete i)
  then have "holds_mutex (cpc s i)" by (simp add: holds_mutex_def)
  from mutex_caller[OF mi this] show ?thesis using delete a[of j]
    by (auto simp: served_in_range_def)
qed (use a[of j] ri in \<open>auto simp: served_in_range_def range_inv_def\<close>)

lemma unserved_todo_step:
  assumes mi: "mutex_inv s"
    and a: "\<And>k. unserved_todo s k"
    and st: "step l s = Some s'"
  shows "unserved_todo s' j"
  using st
proof (cases rule: step_elim)
  case (register i)
  then have "holds_mutex (cpc s i)" by (simp add: holds_mutex_def)
  from mutex_caller[OF mi this] show ?thesis using register a[of j]
    by (auto simp: unserved_todo_def)
next
  case (delete i)
  then have "holds_mutex (cpc s i)" by (simp add: holds_mutex_def)
  from mutex_caller[OF mi this] show ?thesis using delete a[of j]
    by (auto simp: unserved_todo_def)
qed (use a[of j] in \<open>auto simp: unserved_todo_def\<close>)

lemma timed_out_gone_step:
  assumes a: "\<And>k. timed_out_gone s k"
    and st: "step l s = Some s'"
  shows "timed_out_gone s' j"
  using st
  by (cases rule: step_elim) (use a[of j] in \<open>auto simp: timed_out_gone_def\<close>)

lemma received_struct_step:
  assumes ri: "range_inv s"
    and rr: "\<And>k. received_returns s k"
    and a: "\<And>k. received_struct s k"
    and st: "step l s = Some s'"
  shows "received_struct s' j"
  using st
proof (cases rule: step_elim)
  case (delete i)
  then show ?thesis using a[of j] rr[of i]
    by (auto simp: received_struct_def received_returns_def)
qed (use a[of j] ri in \<open>auto simp: received_struct_def range_inv_def\<close>)

lemma proxy_inv_step:
  assumes "proxy_inv s" "step l s = Some s'"
  shows "proxy_inv s'"
proof -
  have mi: "mutex_inv s" and ri: "range_inv s" and wi: "waiter_inv s"
    using assms(1) by (simp_all add: proxy_inv_def)
  have w: "not_yet_registered s k" "received_returns s k" "served_in_range s k"
    "unserved_todo s k" "timed_out_gone s k" "received_struct s k" for k
    using wi by (simp_all add: waiter_inv_def)
  have "waiter_inv s'"
    unfolding waiter_inv_def
    using not_yet_registered_step[OF w(1) assms(2)] received_returns_step[OF w(2) assms(2)]
      served_in_range_step[OF mi ri w(1) w(3) assms(2)] unserved_todo_step[OF mi w(4) assms(2)]
      timed_out_gone_step[OF w(5) assms(2)] received_struct_step[OF ri w(2) w(6) assms(2)]
    by blast
  then show ?thesis
    using mutex_inv_step[OF mi assms(2)] range_inv_step[OF mi ri assms(2)]
    by (simp add: proxy_inv_def)
qed

lemma proxy_inv_newExecProxy: "proxy_inv newExecProxy"
  by (simp add: proxy_inv_def mutex_inv_def range_inv_def waiter_inv_def newExecProxy_def
      holds_mutex_def not_yet_registered_def received_returns_def served_in_range_def
      unserved_todo_def timed_out_gone_def received_struct_def)

lemma proxy_inv_run_schedule:
  "proxy_inv s \<Longrightarrow> run_schedule ls s = Some s' \<Longrightarrow> proxy_inv s'"
proof (induction ls arbitrary: s)
  case Nil
  then show ?case by simp
next
  case (Cons l ls)
  then obtain s1 where s1: "step l s = Some s1" "run_schedule ls s1 = Some s'"
    by (cases "step l s") auto
  from proxy_inv_step[OF Cons.prems(1) s1(1)] Cons.IH s1(2) show ?case by blast
qed

lemma run_schedule_append:
  "run_schedule (ls1 @ ls2) s =
     (case run_schedule ls1 s of None \<Rightarrow> None | Some s1 \<Rightarrow> run_schedule ls2 s1)"
  by (induction ls1 arbitrary: s) (auto split: option.splits)

text \<open>What a caller in the map is to be sent does not change until it is sent.\<close>

lemma awaits_step:
  assumes inv: "proxy_inv s" and a: "awaits i p s" and st: "step l s = Some s'"
  shows "awaits i p s'"
proof -
  have wi: "waiter_inv s" using inv by (simp add: proxy_inv_def)
  have nr: "not_yet_registered s i" and rr: "received_returns s i" and sr: "served_in_range s i"
    and u: "unserved_todo s i" and tg: "timed_out_gone s i"
    using wi by (simp_all add: waiter_inv_def)
  from st show ?thesis
  proof (cases rule: step_elim)
    case clear
    then show ?thesis using a u sr
      by (auto simp: awaits_def serving_def not_yet_registered_def received_returns_def served_in_range_def unserved_todo_def timed_out_gone_def)
  next
    case (recv c r)
    then show ?thesis using a rr sr u
      by (auto simp: awaits_def serving_def not_yet_registered_def received_returns_def served_in_range_def unserved_todo_def timed_out_gone_def)
  next
    case (register c)
    then show ?thesis using a nr tg
      by (auto simp: awaits_def serving_def not_yet_registered_def received_returns_def served_in_range_def unserved_todo_def timed_out_gone_def)
  next
    case (c_lock1 c)
    then show ?thesis using a nr tg
      by (auto simp: awaits_def serving_def not_yet_registered_def received_returns_def served_in_range_def unserved_todo_def timed_out_gone_def)
  next
    case (delete c)
    then show ?thesis using a rr tg
      by (auto simp: awaits_def serving_def not_yet_registered_def received_returns_def served_in_range_def unserved_todo_def timed_out_gone_def)
  next
    case (c_lock2 c)
    then show ?thesis using a rr tg
      by (auto simp: awaits_def serving_def not_yet_registered_def received_returns_def served_in_range_def unserved_todo_def timed_out_gone_def)
  next
    case (nudge_sent c)
    then show ?thesis using a rr tg
      by (auto simp: awaits_def serving_def not_yet_registered_def received_returns_def served_in_range_def unserved_todo_def timed_out_gone_def)
  next
    case (nudge_dropped c)
    then show ?thesis using a rr tg
      by (auto simp: awaits_def serving_def not_yet_registered_def received_returns_def served_in_range_def unserved_todo_def timed_out_gone_def)
  next
    case (ctx_done c)
    then show ?thesis using a rr tg
      by (auto simp: awaits_def serving_def not_yet_registered_def received_returns_def served_in_range_def unserved_todo_def timed_out_gone_def)
  qed (use a in \<open>auto simp: awaits_def serving_def\<close>)
qed

lemma awaits_run_schedule:
  "proxy_inv s \<Longrightarrow> awaits i p s \<Longrightarrow> run_schedule ls s = Some s' \<Longrightarrow> awaits i p s'"
proof (induction ls arbitrary: s)
  case Nil
  then show ?case by simp
next
  case (Cons l ls)
  then obtain s1 where s1: "step l s = Some s1" "run_schedule ls s1 = Some s'"
    by (cases "step l s") auto
  from awaits_step[OF Cons.prems(1,2) s1(1)] proxy_inv_step[OF Cons.prems(1) s1(1)] Cons.IH s1(2)
  show ?case by blast
qed

lemma waiting_awaits:
  assumes "proxy_inv s" "i \<in> waitingScrapes s"
  shows "awaits i (serving s) s"
proof -
  have "served_in_range s i" using assms(1) by (simp add: proxy_inv_def waiter_inv_def)
  then show ?thesis using assms(2)
    by (cases "received s i") (auto simp: awaits_def serving_def served_in_range_def)
qed

subsection \<open>One execution for all the callers of a wake\<close>

text \<open>
  The \<open>range\<close> loop can serve every caller it has still to visit, provided each of them is
  in, or on its way to, the \<open>select\<close> of line 164: the worker takes the callers one by one,
  and each receives.
\<close>

lemma range_can_serve:
  assumes "finite T"
  shows "wpc s = W_Range \<Longrightarrow> todo s = T \<Longrightarrow> \<not> crashed s \<Longrightarrow> heap s (result s) = Some r \<Longrightarrow>
         (\<forall>c\<in>T. cpc s c = C_Wait \<or> cpc s c = C_Nudge) \<Longrightarrow>
         \<exists>ls s'. run_schedule ls s = Some s' \<and> wpc s' = W_Range \<and> todo s' = {} \<and>
            \<not> crashed s' \<and> result s' = result s \<and> next_ptr s' = next_ptr s \<and>
            waitingMtx s' = waitingMtx s \<and> waitingScrapes s' = waitingScrapes s \<and>
            (\<forall>c\<in>T. received s' c = Some (result s) \<and> returned s' c = Some (mfs r, err r)) \<and>
            (\<forall>c. c \<notin> T \<longrightarrow> received s' c = received s c \<and> returned s' c = returned s c)"
  using assms
proof (induction T arbitrary: s rule: finite_induct)
  case empty
  have "run_schedule [] s = Some s" by simp
  then show ?case using empty by blast
next
  case (insert c T)
  define s0 where "s0 = s\<lparr>cpc := (cpc s)(c := C_Wait)\<rparr>"
  define s1 where "s1 = s0\<lparr>wpc := W_Send, cur := c, todo := todo s0 - {c}\<rparr>"
  define s2 where "s2 = s1\<lparr>received := (received s1)(c := Some (result s1)),
                    returned := (returned s1)(c := Some (mfs r, err r)),
                    cpc := (cpc s1)(c := C_Return), wpc := W_Range\<rparr>"
  define pre where "pre = (if cpc s c = C_Nudge then [CStep c] else [])"
  have c: "cpc s c = C_Wait \<or> cpc s c = C_Nudge" using insert.prems(5) by simp
  have r0: "run_schedule pre s = Some s0"
  proof (cases "cpc s c = C_Nudge")
    case True
    then show ?thesis using insert.prems(1,3)
      by (simp add: pre_def s0_def step_def execProxy_Scrape_step_def)
  next
    case False
    then have "cpc s c = C_Wait" using c by simp
    then have "(cpc s)(c := C_Wait) = cpc s" by auto
    then have "s0 = s" by (simp add: s0_def)
    then show ?thesis using False by (simp add: pre_def)
  qed
  have r1: "step (WNext c) s0 = Some s1"
    using insert.prems(1,2,3) by (simp add: s0_def s1_def step_def execProxy_execer_range_def)
  have r2: "step (CRecv c) s1 = Some s2"
    using insert.prems(3,4) by (simp add: s0_def s1_def s2_def step_def execProxy_Scrape_recv_def)
  have run2: "run_schedule (pre @ [WNext c, CRecv c]) s = Some s2"
    using r0 r1 r2 by (simp add: run_schedule_append)
  have t2: "todo s2 = T"
    using insert.prems(2) insert.hyps(2) by (simp add: s0_def s1_def s2_def)
  have p2: "\<forall>c'\<in>T. cpc s2 c' = C_Wait \<or> cpc s2 c' = C_Nudge"
    using insert.prems(5) insert.hyps(2) by (auto simp: s0_def s1_def s2_def)
  have "\<exists>ls s'. run_schedule ls s2 = Some s' \<and> wpc s' = W_Range \<and> todo s' = {} \<and>
            \<not> crashed s' \<and> result s' = result s2 \<and> next_ptr s' = next_ptr s2 \<and>
            waitingMtx s' = waitingMtx s2 \<and> waitingScrapes s' = waitingScrapes s2 \<and>
            (\<forall>c\<in>T. received s' c = Some (result s2) \<and> returned s' c = Some (mfs r, err r)) \<and>
            (\<forall>c. c \<notin> T \<longrightarrow> received s' c = received s2 c \<and> returned s' c = returned s2 c)"
    using insert.prems(3,4) t2 p2
    by (intro insert.IH) (simp_all add: s0_def s1_def s2_def)
  then obtain ls s' where
    ih: "run_schedule ls s2 = Some s'" "wpc s' = W_Range" "todo s' = {}" "\<not> crashed s'"
      "result s' = result s2" "next_ptr s' = next_ptr s2" "waitingMtx s' = waitingMtx s2"
      "waitingScrapes s' = waitingScrapes s2"
      "\<forall>c\<in>T. received s' c = Some (result s2) \<and> returned s' c = Some (mfs r, err r)"
      "\<forall>c. c \<notin> T \<longrightarrow> received s' c = received s2 c \<and> returned s' c = returned s2 c"
    by blast
  have run: "run_schedule ((pre @ [WNext c, CRecv c]) @ ls) s = Some s'"
    using run2 ih(1) by (simp only: run_schedule_append option.case)
  have same: "result s2 = result s" "next_ptr s2 = next_ptr s" "waitingMtx s2 = waitingMtx s"
    "waitingScrapes s2 = waitingScrapes s"
    by (simp_all add: s0_def s1_def s2_def)
  have cc: "received s' c = Some (result s) \<and> returned s' c = Some (mfs r, err r)"
    using ih(10) insert.hyps(2) by (simp add: s0_def s1_def s2_def)
  have others: "\<forall>c'. c' \<notin> insert c T \<longrightarrow>
      received s' c' = received s c' \<and> returned s' c' = returned s c'"
    using ih(10) by (simp add: s0_def s1_def s2_def)
  have all: "\<forall>c'\<in>insert c T. received s' c' = Some (result s) \<and> returned s' c' = Some (mfs r, err r)"
    using cc ih(9) same(1) by simp
  show ?case
    using run ih(2,3,4,5,6,7,8) same all others by (intro exI[of _ "(pre @ [WNext c, CRecv c]) @ ls"] exI[of _ s']) simp
qed

text \<open>
  From a wake of the worker with the mutex free, every caller in the map can be served by
  a single call of \<open>doExec\<close>, whatever result it returns: the worker runs the script once and
  sends the one struct to each of them.
\<close>

lemma waiters_can_be_served:
  assumes inv: "proxy_inv s" and w: "wpc s = W_Lock1" and m: "waitingMtx s = None"
    and nc: "\<not> crashed s" and ne: "waitingScrapes s \<noteq> {}"
    and pcs: "\<forall>c\<in>waitingScrapes s. cpc s c = C_Wait \<or> cpc s c = C_Nudge"
    and r: "snd (doExec run) = Inr r"
  shows "\<exists>ls s'. run_schedule ls s = Some s' \<and> next_ptr s' = Suc (next_ptr s) \<and>
           waitingScrapes s' = {} \<and>
           (\<forall>c\<in>waitingScrapes s. received s' c = Some (next_ptr s) \<and>
               returned s' c = Some (mfs r, err r))"
proof -
  define s3 where
    "s3 = s\<lparr>waitingMtx := Some Worker, wpc := W_Range, todo := waitingScrapes s,
            heap := (heap s)(next_ptr s := Some r), result := next_ptr s,
            next_ptr := Suc (next_ptr s)\<rparr>"
  have fin: "finite (waitingScrapes s)" using inv by (simp add: proxy_inv_def range_inv_def)
  have r3: "run_schedule [WStep, WStep, WExec run, WStep] s = Some s3"
    using w m nc ne r by (simp add: s3_def step_def execProxy_execer_step_def execProxy_execer_doExec_def)
  have "\<exists>ls s'. run_schedule ls s3 = Some s' \<and> wpc s' = W_Range \<and> todo s' = {} \<and>
            \<not> crashed s' \<and> result s' = result s3 \<and> next_ptr s' = next_ptr s3 \<and>
            waitingMtx s' = waitingMtx s3 \<and> waitingScrapes s' = waitingScrapes s3 \<and>
            (\<forall>c\<in>waitingScrapes s. received s' c = Some (result s3) \<and> returned s' c = Some (mfs r, err r)) \<and>
            (\<forall>c. c \<notin> waitingScrapes s \<longrightarrow> received s' c = received s3 c \<and> returned s' c = returned s3 c)"
    using nc pcs by (intro range_can_serve[OF fin]) (simp_all add: s3_def)
  then obtain ls s4 where
    s4: "run_schedule ls s3 = Some s4" "wpc s4 = W_Range" "todo s4 = {}" "\<not> crashed s4"
      "next_ptr s4 = next_ptr s3"
      "\<forall>c\<in>waitingScrapes s. received s4 c = Some (result s3) \<and> returned s4 c = Some (mfs r, err r)"
    by blast
  define s5 where "s5 = s4\<lparr>waitingScrapes := {}, waitingMtx := None, wpc := W_Start\<rparr>"
  have r5: "run_schedule [WStep] s4 = Some s5"
    using s4(2,3,4) by (simp add: s5_def step_def execProxy_execer_step_def)
  have run: "run_schedule (([WStep, WStep, WExec run, WStep] @ ls) @ [WStep]) s = Some s5"
    using r3 s4(1) r5 by (simp only: run_schedule_append option.case)
  have "next_ptr s5 = Suc (next_ptr s)" "waitingScrapes s5 = {}"
    "\<forall>c\<in>waitingScrapes s. received s5 c = Some (next_ptr s) \<and> returned s5 c = Some (mfs r, err r)"
    using s4(5,6) by (simp_all add: s5_def s3_def)
  then show ?thesis using run by blast
qed

text \<open>
  Addresses are handed out in order, a struct once allocated is never written again, and
  only a call of \<open>doExec\<close> that returns allocates.
\<close>

lemma heap_step:
  assumes "step l s = Some s'"
  shows "next_ptr s \<le> next_ptr s'"
    and "a < next_ptr s \<Longrightarrow> heap s' a = heap s a"
    and "next_ptr s' \<noteq> next_ptr s \<Longrightarrow>
           \<exists>run r. l = WExec run \<and> snd (doExec run) = Inr r \<and> heap s' (next_ptr s) = Some r"
    and "l = WExec run \<Longrightarrow> next_ptr s' = next_ptr s \<Longrightarrow> crashed s'"
proof -
  from assms have
    "next_ptr s \<le> next_ptr s' \<and> (a < next_ptr s \<longrightarrow> heap s' a = heap s a) \<and>
     (next_ptr s' \<noteq> next_ptr s \<longrightarrow>
        (\<exists>run r. l = WExec run \<and> snd (doExec run) = Inr r \<and> heap s' (next_ptr s) = Some r)) \<and>
     (l = WExec run \<longrightarrow> next_ptr s' = next_ptr s \<longrightarrow> crashed s')"
    by (cases rule: step_elim) simp_all
  then show "next_ptr s \<le> next_ptr s'"
    and "a < next_ptr s \<Longrightarrow> heap s' a = heap s a"
    and "next_ptr s' \<noteq> next_ptr s \<Longrightarrow>
           \<exists>run r. l = WExec run \<and> snd (doExec run) = Inr r \<and> heap s' (next_ptr s) = Some r"
    and "l = WExec run \<Longrightarrow> next_ptr s' = next_ptr s \<Longrightarrow> crashed s'"
    by blast+
qed

lemma crashed_run_schedule:
  "crashed s \<Longrightarrow> run_schedule ls s = Some s' \<Longrightarrow> s' = s"
  by (cases ls) (simp_all add: step_def)

lemma heap_run_schedule:
  "run_schedule ls s = Some s' \<Longrightarrow>
   next_ptr s \<le> next_ptr s' \<and> (\<forall>a < next_ptr s. heap s' a = heap s a)"
proof (induction ls arbitrary: s)
  case Nil
  then show ?case by simp
next
  case (Cons l ls)
  then obtain s1 where s1: "step l s = Some s1" "run_schedule ls s1 = Some s'"
    by (cases "step l s") auto
  from Cons.IH[OF s1(2)] heap_step(1,2)[OF s1(1)] show ?case by fastforce
qed

text \<open>
  If an address has been allocated since state \<open>s\<close>, the struct at the first new address
  is what the first call of \<open>doExec\<close> after \<open>s\<close> returned.
\<close>

lemma first_doExec:
  "run_schedule ls s = Some s' \<Longrightarrow> next_ptr s < next_ptr s' \<Longrightarrow>
   \<exists>pre run post r. ls = pre @ WExec run # post \<and> (\<forall>run'. WExec run' \<notin> set pre) \<and>
      snd (doExec run) = Inr r \<and> heap s' (next_ptr s) = Some r"
proof (induction ls arbitrary: s)
  case Nil
  then show ?case by simp
next
  case (Cons l ls)
  then obtain s1 where s1: "step l s = Some s1" "run_schedule ls s1 = Some s'"
    by (cases "step l s") auto
  show ?case
  proof (cases "next_ptr s1 = next_ptr s")
    case True
    have nx: "\<And>run'. l \<noteq> WExec run'"
    proof
      fix run' assume "l = WExec run'"
      from heap_step(4)[OF s1(1) this True] have "crashed s1" .
      from crashed_run_schedule[OF this s1(2)] have "s' = s1" .
      then show False using Cons.prems(2) True by simp
    qed
    from Cons.IH[OF s1(2)] Cons.prems(2) True
    obtain pre run post r where
      p: "ls = pre @ WExec run # post" "\<forall>run'. WExec run' \<notin> set pre"
        "snd (doExec run) = Inr r" "heap s' (next_ptr s) = Some r"
      by auto
    have "l # ls = (l # pre) @ WExec run # post" using p(1) by simp
    moreover have "\<forall>run'. WExec run' \<notin> set (l # pre)" using p(2) nx by auto
    ultimately show ?thesis using p(3,4) by blast
  next
    case False
    from heap_step(3)[OF s1(1) False]
    obtain run r where r: "l = WExec run" "snd (doExec run) = Inr r" "heap s1 (next_ptr s) = Some r"
      by blast
    have "next_ptr s < next_ptr s1" using heap_step(1)[OF s1(1)] False by simp
    then have "heap s' (next_ptr s) = heap s1 (next_ptr s)"
      using heap_run_schedule[OF s1(2)] by simp
    then have "l # ls = [] @ WExec run # ls \<and> (\<forall>run'. WExec run' \<notin> set []) \<and>
      snd (doExec run) = Inr r \<and> heap s' (next_ptr s) = Some r"
      using r by simp
    then show ?thesis by blast
  qed
qed

text \<open>
  A caller that is in the map when the worker is woken receives, if it receives at all, the
  address allocated by the next call of \<open>doExec\<close>, and returns the fields of that struct.
\<close>

lemma served_by_next_doExec:
  assumes inv: "proxy_inv s" and w: "wpc s = W_Lock1" and c: "c \<in> waitingScrapes s"
    and run: "run_schedule ls s = Some s'" and rc: "received s' c = Some p"
  shows "p = next_ptr s \<and> next_ptr s < next_ptr s' \<and>
         (\<exists>r. heap s' (next_ptr s) = Some r \<and> returned s' c = Some (mfs r, err r))"
proof -
  have sv: "serving s = next_ptr s" using w by (simp add: serving_def)
  have "awaits c (next_ptr s) s'"
    using awaits_run_schedule[OF inv waiting_awaits[OF inv c] run] sv by simp
  then have p: "p = next_ptr s" using rc by (simp add: awaits_def)
  have "received_struct s' c"
    using proxy_inv_run_schedule[OF inv run] by (simp add: proxy_inv_def waiter_inv_def)
  then show ?thesis using rc p by (auto simp: received_struct_def)
qed

text \<open>
  What the callers of one wake share. Let the worker be woken in a state \<open>s\<close> the proxy can
  reach. Whatever the schedule from there, a caller that was in the map at the wake and
  receives a pointer receives the address allocated by the first call of \<open>doExec\<close> that
  returns after the wake.
  If any of them has received, the schedule has exactly one such call before that, and each
  of them that has received returns the fields of the struct that call returned: the same
  family slice and the same error. And if at the wake the mutex is free and the callers in
  the map are in or before their \<open>select\<close>, then for every result of \<open>doExec\<close> there is a
  schedule in which one call of \<open>doExec\<close> serves them all.
\<close>

lemma served_callers_share_execution:
  assumes "run_schedule ls0 newExecProxy = Some s" and "wpc s = W_Lock1"
  shows "(\<forall>ls s'. run_schedule ls s = Some s' \<longrightarrow>
            (\<forall>c\<in>waitingScrapes s. \<forall>p. received s' c = Some p \<longrightarrow> p = next_ptr s) \<and>
            ((\<exists>c\<in>waitingScrapes s. received s' c \<noteq> None) \<longrightarrow>
               (\<exists>pre run post r. ls = pre @ WExec run # post \<and> (\<forall>run'. WExec run' \<notin> set pre) \<and>
                  snd (doExec run) = Inr r \<and> heap s' (next_ptr s) = Some r \<and>
                  (\<forall>c\<in>waitingScrapes s. received s' c \<noteq> None \<longrightarrow>
                      returned s' c = Some (mfs r, err r))))) \<and>
         (waitingMtx s = None \<and> \<not> crashed s \<and> waitingScrapes s \<noteq> {} \<and>
          (\<forall>c\<in>waitingScrapes s. cpc s c = C_Wait \<or> cpc s c = C_Nudge) \<longrightarrow>
            (\<forall>run r. snd (doExec run) = Inr r \<longrightarrow>
               (\<exists>ls s'. run_schedule ls s = Some s' \<and> next_ptr s' = Suc (next_ptr s) \<and>
                  (\<forall>c\<in>waitingScrapes s. received s' c = Some (next_ptr s) \<and>
                      returned s' c = Some (mfs r, err r)))))"
proof (intro conjI allI impI)
  fix ls s'
  assume run: "run_schedule ls s = Some s'"
  have inv: "proxy_inv s"
    using proxy_inv_run_schedule[OF proxy_inv_newExecProxy assms(1)] .
  show "\<forall>c\<in>waitingScrapes s. \<forall>p. received s' c = Some p \<longrightarrow> p = next_ptr s"
    using served_by_next_doExec[OF inv assms(2) _ run] by blast
  assume "\<exists>c\<in>waitingScrapes s. received s' c \<noteq> None"
  then obtain c0 p0 where c0: "c0 \<in> waitingScrapes s" "received s' c0 = Some p0" by auto
  from served_by_next_doExec[OF inv assms(2) c0(1) run c0(2)]
  have lt: "next_ptr s < next_ptr s'" by simp
  from first_doExec[OF run lt] obtain pre run post r where
    f: "ls = pre @ WExec run # post" "\<forall>run'. WExec run' \<notin> set pre"
      "snd (doExec run) = Inr r" "heap s' (next_ptr s) = Some r"
    by blast
  have "\<forall>c\<in>waitingScrapes s. received s' c \<noteq> None \<longrightarrow> returned s' c = Some (mfs r, err r)"
  proof (intro ballI impI)
    fix c assume c: "c \<in> waitingScrapes s" "received s' c \<noteq> None"
    then obtain p where "received s' c = Some p" by auto
    from served_by_next_doExec[OF inv assms(2) c(1) run this] f(4)
    show "returned s' c = Some (mfs r, err r)" by auto
  qed
  then show "\<exists>pre run post r. ls = pre @ WExec run # post \<and> (\<forall>run'. WExec run' \<notin> set pre) \<and>
                  snd (doExec run) = Inr r \<and> heap s' (next_ptr s) = Some r \<and>
                  (\<forall>c\<in>waitingScrapes s. received s' c \<noteq> None \<longrightarrow>
                      returned s' c = Some (mfs r, err r))"
    using f by blast
next
  fix run r
  assume a: "waitingMtx s = None \<and> \<not> crashed s \<and> waitingScrapes s \<noteq> {} \<and>
          (\<forall>c\<in>waitingScrapes s. cpc s c = C_Wait \<or> cpc s c = C_Nudge)"
    and r: "snd (doExec run) = Inr r"
  have inv: "proxy_inv s"
    using proxy_inv_run_schedule[OF proxy_inv_newExecProxy assms(1)] .
  from a have a1: "waitingMtx s = None" and a2: "\<not> crashed s" and a3: "waitingScrapes s \<noteq> {}"
    and a4: "\<forall>c\<in>waitingScrapes s. cpc s c = C_Wait \<or> cpc s c = C_Nudge"
    by simp_all
  from waiters_can_be_served[OF inv assms(2) a1 a2 a3 a4 r]
  obtain ls s' where "run_schedule ls s = Some s'" "next_ptr s' = Suc (next_ptr s)"
    "\<forall>c\<in>waitingScrapes s. received s' c = Some (next_ptr s) \<and> returned s' c = Some (mfs r, err r)"
    by blast
  then show "\<exists>ls s'. run_schedule ls s = Some s' \<and> next_ptr s' = Suc (next_ptr s) \<and>
                  (\<forall>c\<in>waitingScrapes s. received s' c = Some (next_ptr s) \<and>
                      returned s' c = Some (mfs r, err r))"
    by blast
qed

lemma served_callers_share_execution_example:
  "run_schedule [WStep, CStep 0, CStep 0, CStep 1, CStep 1, CStep 0] newExecProxy
   = Some \<lparr>waitingScrapes = {1, 0}, waitingMtx = None, wpc = W_Lock1, result = 0, todo = {},
          cur = 0, cpc = (\<lambda>_. C_Lock1)(1 := C_Nudge, 0 := C_Wait), ctx_cancelled = (\<lambda>_. False),
          received = (\<lambda>_. None), returned = (\<lambda>_. None), heap = (\<lambda>_. None),
          next_ptr = 0, crashed = False\<rparr>
   \<and> run_schedule
       [CStep 1, WStep, WStep,
        WExec \<lparr>stdoutPipe_ret = None, start_ret = None,
               decodeMetrics_ret = (Some [1, 2], None), kill_ret = None\<rparr>,
        WStep, WNext 1, CRecv 1, WNext 0, CRecv 0, WStep]
       \<lparr>waitingScrapes = {1, 0}, waitingMtx = None, wpc = W_Lock1, result = 0, todo = {},
          cur = 0, cpc = (\<lambda>_. C_Lock1)(1 := C_Nudge, 0 := C_Wait), ctx_cancelled = (\<lambda>_. False),
          received = (\<lambda>_. None), returned = (\<lambda>_. None), heap = (\<lambda>_. None),
          next_ptr = 0, crashed = False\<rparr>
     = Some \<lparr>waitingScrapes = {}, waitingMtx = None, wpc = W_Start, result = 0, todo = {},
          cur = 0, cpc = (\<lambda>_. C_Lock1)(1 := C_Return, 0 := C_Return), ctx_cancelled = (\<lambda>_. False),
          received = (\<lambda>_. None)(1 := Some 0, 0 := Some 0),
          returned = (\<lambda>_. None)(1 := Some (Some [1, 2], None), 0 := Some (Some [1, 2], None)),
          heap = (\<lambda>_. None)(0 := Some \<lparr>mfs = Some [1, 2], err = None\<rparr>),
          next_ptr = Suc 0, crashed = False\<rparr>
   \<and> (\<exists>pre run post r.
        [CStep 1, WStep, WStep,
         WExec \<lparr>stdoutPipe_ret = None, start_ret = None,
               decodeMetrics_ret = (Some [1, 2], None), kill_ret = None\<rparr>,
         WStep, WNext 1, CRecv 1, WNext 0, CRecv 0, WStep] = pre @ WExec run # post \<and>
        (\<forall>run'. WExec run' \<notin> set pre) \<and> snd (doExec run) = Inr r)
   \<and> (\<exists>ls s'.
        run_schedule ls
          \<lparr>waitingScrapes = {1, 0}, waitingMtx = None, wpc = W_Lock1, result = 0, todo = {},
            cur = 0, cpc = (\<lambda>_. C_Lock1)(1 := C_Nudge, 0 := C_Wait), ctx_cancelled = (\<lambda>_. False),
            received = (\<lambda>_. None), returned = (\<lambda>_. None), heap = (\<lambda>_. None),
            next_ptr = 0, crashed = False\<rparr> = Some s' \<and>
        received s' 0 = Some 0 \<and> received s' 1 = Some 0 \<and>
        returned s' 0 = Some (None, Some (ExternalError ''exit status 1'')) \<and>
        returned s' 1 = Some (None, Some (ExternalError ''exit status 1'')))"
proof -
  let ?run = "\<lparr>stdoutPipe_ret = None, start_ret = None,
               decodeMetrics_ret = (Some [1, 2], None), kill_ret = None\<rparr>"
  let ?bad = "\<lparr>stdoutPipe_ret = None, start_ret = Some (ExternalError ''exit status 1''),
               decodeMetrics_ret = (None, None), kill_ret = None\<rparr>"
  let ?s = "\<lparr>waitingScrapes = {1, 0}, waitingMtx = None, wpc = W_Lock1, result = 0, todo = {},
          cur = 0, cpc = (\<lambda>_. C_Lock1)(1 := C_Nudge, 0 := C_Wait), ctx_cancelled = (\<lambda>_. False),
          received = (\<lambda>_. None), returned = (\<lambda>_. None), heap = (\<lambda>_. None),
          next_ptr = 0, crashed = False\<rparr>"
  let ?s' = "\<lparr>waitingScrapes = {}, waitingMtx = None, wpc = W_Start, result = 0, todo = {},
          cur = 0, cpc = (\<lambda>_. C_Lock1)(1 := C_Return, 0 := C_Return), ctx_cancelled = (\<lambda>_. False),
          received = (\<lambda>_. None)(1 := Some 0, 0 := Some 0),
          returned = (\<lambda>_. None)(1 := Some (Some [1, 2], None), 0 := Some (Some [1, 2], None)),
          heap = (\<lambda>_. None)(0 := Some \<lparr>mfs = Some [1, 2], err = None\<rparr>),
          next_ptr = Suc 0, crashed = False\<rparr>"
  let ?ls = "[CStep 1, WStep, WStep, WExec ?run, WStep, WNext 1, CRecv 1, WNext 0, CRecv 0, WStep]"
  have h1: "run_schedule [WStep, CStep 0, CStep 0, CStep 1, CStep 1, CStep 0] newExecProxy = Some ?s"
    by (simp add: newExecProxy_def step_def execProxy_execer_step_def execProxy_Scrape_step_def)
  have h2: "wpc ?s = W_Lock1" by simp
  have h4: "run_schedule ?ls ?s = Some ?s'"
    by (simp add: step_def execProxy_execer_step_def execProxy_Scrape_step_def
        execProxy_execer_doExec_def execProxy_execer_range_def execProxy_Scrape_recv_def doExec_def)
  have h5: "\<exists>c\<in>waitingScrapes ?s. received ?s' c \<noteq> None" by simp
  note t = served_callers_share_execution[OF h1 h2, THEN conjunct1, rule_format, OF h4]
  from t[THEN conjunct2, rule_format, OF h5]
  have "\<exists>pre run post r. ?ls = pre @ WExec run # post \<and>
        (\<forall>run'. WExec run' \<notin> set pre) \<and> snd (doExec run) = Inr r"
    by blast
  moreover have "\<exists>ls s'. run_schedule ls ?s = Some s' \<and>
        received s' 0 = Some 0 \<and> received s' 1 = Some 0 \<and>
        returned s' 0 = Some (None, Some (ExternalError ''exit status 1'')) \<and>
        returned s' 1 = Some (None, Some (ExternalError ''exit status 1''))"
  proof -
    have p: "waitingMtx ?s = None \<and> \<not> crashed ?s \<and> waitingScrapes ?s \<noteq> {} \<and>
          (\<forall>c\<in>waitingScrapes ?s. cpc ?s c = C_Wait \<or> cpc ?s c = C_Nudge)"
      by simp
    have b: "snd (doExec ?bad) = Inr \<lparr>mfs = None, err = Some (ExternalError ''exit status 1'')\<rparr>"
      by (simp add: doExec_def)
    from served_callers_share_execution[OF h1 h2, THEN conjunct2, rule_format, OF p b]
    obtain ls s' where "run_schedule ls ?s = Some s'"
      "\<forall>c\<in>waitingScrapes ?s. received s' c = Some (next_ptr ?s) \<and>
          returned s' c = Some (mfs \<lparr>mfs = None, err = Some (ExternalError ''exit status 1'')\<rparr>,
                                err \<lparr>mfs = None, err = Some (ExternalError ''exit status 1'')\<rparr>)"
      by blast
    then have "run_schedule ls ?s = Some s' \<and>
        received s' 0 = Some 0 \<and> received s' 1 = Some 0 \<and>
        returned s' 0 = Some (None, Some (ExternalError ''exit status 1'')) \<and>
        returned s' 1 = Some (None, Some (ExternalError ''exit status 1''))"
      by simp
    then show ?thesis by blast
  qed
  ultimately show ?thesis using h1 h4 by blast
qed

subsection \<open>Cancellation during the dispatch, and the dropped nudge\<close>

text \<open>
  Once the worker is blocked in its send to a caller that waits for the mutex, the state of
  the proxy is frozen: no step sets that apart, the map and the returned values are as
  they were, and the mutex stays with the worker.
\<close>

lemma send_deadlock_step:
  assumes mi: "mutex_inv s" and d: "send_deadlock s" and st: "step l s = Some s'"
  shows "send_deadlock s' \<and> cur s' = cur s \<and> returned s' = returned s \<and>
         waitingScrapes s' = waitingScrapes s"
  using st
proof (cases rule: step_elim)
  case (register i)
  then have "holds_mutex (cpc s i)" by (simp add: holds_mutex_def)
  from mutex_caller[OF mi this] show ?thesis using d by (simp add: send_deadlock_def)
next
  case (delete i)
  then have "holds_mutex (cpc s i)" by (simp add: holds_mutex_def)
  from mutex_caller[OF mi this] show ?thesis using d by (simp add: send_deadlock_def)
next
  case (nudge_sent i)
  then show ?thesis using d by (auto simp: send_deadlock_def)
next
  case (nudge_dropped i)
  then show ?thesis using d by (auto simp: send_deadlock_def)
next
  case (ctx_done i)
  then show ?thesis using d by (auto simp: send_deadlock_def)
qed (use d in \<open>simp_all add: send_deadlock_def\<close>)

lemma send_deadlock_run_schedule:
  "proxy_inv s \<Longrightarrow> send_deadlock s \<Longrightarrow> run_schedule ls s = Some s' \<Longrightarrow>
   send_deadlock s' \<and> cur s' = cur s \<and> returned s' = returned s \<and>
   waitingScrapes s' = waitingScrapes s"
proof (induction ls arbitrary: s)
  case Nil
  then show ?case by simp
next
  case (Cons l ls)
  then obtain s1 where s1: "step l s = Some s1" "run_schedule ls s1 = Some s'"
    by (cases "step l s") auto
  have mi: "mutex_inv s" using Cons.prems(1) by (simp add: proxy_inv_def)
  from send_deadlock_step[OF mi Cons.prems(2) s1(1)]
  have d1: "send_deadlock s1" "cur s1 = cur s" "returned s1 = returned s"
    "waitingScrapes s1 = waitingScrapes s"
    by simp_all
  from Cons.IH[OF proxy_inv_step[OF Cons.prems(1) s1(1)] d1(1) s1(2)] d1(2,3,4)
  show ?case by simp
qed

text \<open>Nor does \<open>doExec\<close> run again.\<close>

lemma send_deadlock_next_ptr:
  "proxy_inv s \<Longrightarrow> send_deadlock s \<Longrightarrow> run_schedule ls s = Some s' \<Longrightarrow>
   next_ptr s' = next_ptr s"
proof (induction ls arbitrary: s)
  case Nil
  then show ?case by simp
next
  case (Cons l ls)
  then obtain s1 where s1: "step l s = Some s1" "run_schedule ls s1 = Some s'"
    by (cases "step l s") auto
  have mi: "mutex_inv s" using Cons.prems(1) by (simp add: proxy_inv_def)
  from send_deadlock_step[OF mi Cons.prems(2) s1(1)] have d1: "send_deadlock s1" by simp
  have "next_ptr s1 = next_ptr s"
  proof (rule ccontr)
    assume "next_ptr s1 \<noteq> next_ptr s"
    from heap_step(3)[OF s1(1) this] obtain run where "l = WExec run" by blast
    then show False
      using s1(1) Cons.prems(2)
      by (simp add: step_def execProxy_execer_doExec_def send_deadlock_def split: if_splits)
  qed
  with Cons.IH[OF proxy_inv_step[OF Cons.prems(1) s1(1)] d1 s1(2)] show ?case by simp
qed

text \<open>While the worker holds the mutex, a \<open>Scrape\<close> that is before one of its \<open>Lock\<close> calls cannot move.\<close>

lemma Lock_blocked:
  "waitingMtx s = Some Worker \<Longrightarrow> cpc s i = C_Lock1 \<or> cpc s i = C_Lock2 \<Longrightarrow>
   step (CStep i) s = None"
  by (auto simp: step_def execProxy_Scrape_step_def)

text \<open>
  Claim C3. A \<open>Scrape\<close> whose context is cancelled is to delete its channel from the map
  under the mutex and return the timeout error, and later scrapes are to complete. The
  worker holds the mutex during the whole \<open>range\<close> loop and sends on unbuffered channels.
  A caller that takes the \<open>ctx.Done()\<close> case while the worker is in that loop waits for the
  mutex, the worker waits for that caller to receive, and neither moves again. After the
  schedule below, whatever happens next: the cancelled \<open>Scrape\<close> has not returned, its
  channel is still in the map, the worker holds the mutex, no \<open>Scrape\<close> has returned, and
  a new \<open>Scrape\<close> cannot get past its first \<open>Lock\<close>.
\<close>

theorem cancelled_Scrape_deadlock:
  assumes "run_schedule
             ([WStep, CStep 0, CStep 0, CStep 0, WStep, WStep,
               WExec \<lparr>stdoutPipe_ret = None, start_ret = None,
                      decodeMetrics_ret = (Some [1, 2], None), kill_ret = None\<rparr>,
               WStep, Cancel 0, CDone 0, WNext 0] @ ls) newExecProxy = Some s'"
  shows "ctx_cancelled s' 0 \<and> cpc s' 0 = C_Lock2 \<and> returned s' 0 = None \<and>
         0 \<in> waitingScrapes s' \<and> waitingMtx s' = Some Worker \<and> wpc s' = W_Send \<and>
         step (CStep 0) s' = None \<and>
         (\<forall>j. returned s' j = None) \<and>
         (\<forall>j. cpc s' j = C_Lock1 \<longrightarrow> step (CStep j) s' = None)"
proof -
  let ?run = "\<lparr>stdoutPipe_ret = None, start_ret = None,
                      decodeMetrics_ret = (Some [1, 2], None), kill_ret = None\<rparr>"
  let ?sched = "[WStep, CStep 0, CStep 0, CStep 0, WStep, WStep, WExec ?run,
               WStep, Cancel 0, CDone 0, WNext 0]"
  define s where
    "s = \<lparr>waitingScrapes = {0}, waitingMtx = Some Worker, wpc = W_Send, result = 0, todo = {},
          cur = 0, cpc = (\<lambda>_. C_Lock1)(0 := C_Lock2), ctx_cancelled = (\<lambda>_. False)(0 := True),
          received = (\<lambda>_. None), returned = (\<lambda>_. None),
          heap = (\<lambda>_. None)(0 := Some \<lparr>mfs = Some [1, 2], err = None\<rparr>),
          next_ptr = Suc 0, crashed = False\<rparr>"
  have e: "run_schedule ?sched newExecProxy = Some s"
    by (simp add: s_def newExecProxy_def step_def execProxy_execer_step_def execProxy_Scrape_step_def
        execProxy_execer_doExec_def execProxy_execer_range_def execProxy_Scrape_ctxDone_def doExec_def)
  have r: "run_schedule ls s = Some s'"
    using assms by (simp only: run_schedule_append e option.case)
  have inv: "proxy_inv s"
    using proxy_inv_run_schedule[OF proxy_inv_newExecProxy e] .
  have d: "send_deadlock s" by (simp add: send_deadlock_def s_def)
  from send_deadlock_run_schedule[OF inv d r]
  have d': "send_deadlock s'" "cur s' = cur s" "returned s' = returned s"
    "waitingScrapes s' = waitingScrapes s"
    by simp_all
  have c: "ctx_cancelled s' 0"
  proof -
    have "\<And>t t'. ctx_cancelled t 0 \<Longrightarrow> run_schedule ls t = Some t' \<Longrightarrow> ctx_cancelled t' 0"
    proof (induction ls)
      case Nil
      then show ?case by simp
    next
      case (Cons l ls)
      from Cons.prems(2) obtain t1 where t1: "step l t = Some t1" "run_schedule ls t1 = Some t'"
        by (cases "step l t") auto
      from t1(1) Cons.prems(1) have "ctx_cancelled t1 0"
        by (cases rule: step_elim; simp)
      with Cons.IH t1(2) show ?case by blast
    qed
    from this[OF _ r] show ?thesis by (simp add: s_def)
  qed
  have m: "waitingMtx s' = Some Worker" "wpc s' = W_Send" "cpc s' 0 = C_Lock2"
    using d'(1,2) by (simp_all add: send_deadlock_def s_def)
  have "step (CStep 0) s' = None"
    using Lock_blocked[OF m(1), of 0] m(3) by simp
  moreover have "\<forall>j. cpc s' j = C_Lock1 \<longrightarrow> step (CStep j) s' = None"
    using Lock_blocked[OF m(1)] by blast
  moreover have "\<forall>j. returned s' j = None" "0 \<in> waitingScrapes s'"
    using d'(3,4) by (simp_all add: s_def)
  ultimately show ?thesis using c m by simp
qed

theorem cancelled_Scrape_deadlock_witness:
  "run_schedule
     ([WStep, CStep 0, CStep 0, CStep 0, WStep, WStep,
       WExec \<lparr>stdoutPipe_ret = None, start_ret = None,
              decodeMetrics_ret = (Some [1, 2], None), kill_ret = None\<rparr>,
       WStep, Cancel 0, CDone 0, WNext 0] @ [Cancel 1]) newExecProxy
   = Some \<lparr>waitingScrapes = {0}, waitingMtx = Some Worker, wpc = W_Send, result = 0, todo = {},
          cur = 0, cpc = (\<lambda>_. C_Lock1)(0 := C_Lock2),
          ctx_cancelled = (\<lambda>_. False)(0 := True, 1 := True),
          received = (\<lambda>_. None), returned = (\<lambda>_. None),
          heap = (\<lambda>_. None)(0 := Some \<lparr>mfs = Some [1, 2], err = None\<rparr>),
          next_ptr = Suc 0, crashed = False\<rparr>
   \<and> step (CStep 0) \<lparr>waitingScrapes = {0}, waitingMtx = Some Worker, wpc = W_Send, result = 0, todo = {},
          cur = 0, cpc = (\<lambda>_. C_Lock1)(0 := C_Lock2),
          ctx_cancelled = (\<lambda>_. False)(0 := True, 1 := True),
          received = (\<lambda>_. None), returned = (\<lambda>_. None),
          heap = (\<lambda>_. None)(0 := Some \<lparr>mfs = Some [1, 2], err = None\<rparr>),
          next_ptr = Suc 0, crashed = False\<rparr> = None
   \<and> step (CStep 1) \<lparr>waitingScrapes = {0}, waitingMtx = Some Worker, wpc = W_Send, result = 0, todo = {},
          cur = 0, cpc = (\<lambda>_. C_Lock1)(0 := C_Lock2),
          ctx_cancelled = (\<lambda>_. False)(0 := True, 1 := True),
          received = (\<lambda>_. None), returned = (\<lambda>_. None),
          heap = (\<lambda>_. None)(0 := Some \<lparr>mfs = Some [1, 2], err = None\<rparr>),
          next_ptr = Suc 0, crashed = False\<rparr> = None"
proof -
  let ?s = "\<lparr>waitingScrapes = {0}, waitingMtx = Some Worker, wpc = W_Send, result = 0, todo = {},
          cur = 0, cpc = (\<lambda>_. C_Lock1)(0 := C_Lock2),
          ctx_cancelled = (\<lambda>_. False)(0 := True, 1 := True),
          received = (\<lambda>_. None), returned = (\<lambda>_. None),
          heap = (\<lambda>_. None)(0 := Some \<lparr>mfs = Some [1, 2], err = None\<rparr>),
          next_ptr = Suc 0, crashed = False\<rparr>"
  have h: "run_schedule
     ([WStep, CStep 0, CStep 0, CStep 0, WStep, WStep,
       WExec \<lparr>stdoutPipe_ret = None, start_ret = None,
              decodeMetrics_ret = (Some [1, 2], None), kill_ret = None\<rparr>,
       WStep, Cancel 0, CDone 0, WNext 0] @ [Cancel 1]) newExecProxy = Some ?s"
    by (simp add: newExecProxy_def step_def execProxy_execer_step_def execProxy_Scrape_step_def
        execProxy_execer_doExec_def execProxy_execer_range_def execProxy_Scrape_ctxDone_def doExec_def)
  from cancelled_Scrape_deadlock[OF h] have
    "step (CStep 0) ?s = None" "cpc ?s 1 = C_Lock1 \<longrightarrow> step (CStep 1) ?s = None"
    by blast+
  then show ?thesis using h by simp
qed

text \<open>
  Claim C1. Callers whose registrations precede one wake of the worker are each to receive
  the result of the one execution that follows; the worker's comments say as much
  (\<open>Emit metrics to all waiting scrapes\<close>, \<open>all scrapes are now satisfied\<close>). Callers 0
  and 1 register, caller 0 wakes the worker, and the worker runs the script once. The
  context of caller 0 is then cancelled during the dispatch and the \<open>range\<close> loop comes to
  its channel first. The worker blocks in that send with the mutex held, as under claim C3,
  and never comes to the channel of caller 1. Whatever happens next, caller 1 is in the
  map, has received nothing and has not returned, neither the result nor an error, while
  the struct that \<open>doExec\<close> returned sits in the heap.
\<close>

theorem waiter_starved_by_cancelled_Scrape:
  assumes "run_schedule [WStep, CStep 0, CStep 0, CStep 1, CStep 1, CStep 0] newExecProxy = Some s"
    and "run_schedule
           ([CStep 1, WStep, WStep,
             WExec \<lparr>stdoutPipe_ret = None, start_ret = None,
                    decodeMetrics_ret = (Some [1, 2], None), kill_ret = None\<rparr>,
             WStep, Cancel 0, CDone 0, WNext 0] @ ls) s = Some s'"
  shows "wpc s = W_Lock1 \<and> waitingScrapes s = {0, 1} \<and>
         \<not> ctx_cancelled s 0 \<and> \<not> ctx_cancelled s 1 \<and>
         next_ptr s' = Suc (next_ptr s) \<and>
         heap s' (next_ptr s) = Some \<lparr>mfs = Some [1, 2], err = None\<rparr> \<and>
         1 \<in> waitingScrapes s' \<and> received s' 1 = None \<and> returned s' 1 = None \<and>
         cpc s' 1 \<noteq> C_Return \<and> step (CRecv 1) s' = None \<and>
         wpc s' = W_Send \<and> cur s' = 0 \<and> cpc s' 0 = C_Lock2 \<and> waitingMtx s' = Some Worker"
proof -
  let ?run = "\<lparr>stdoutPipe_ret = None, start_ret = None,
                 decodeMetrics_ret = (Some [1, 2], None), kill_ret = None\<rparr>"
  define s0 where
    "s0 = \<lparr>waitingScrapes = {1, 0}, waitingMtx = None, wpc = W_Lock1, result = 0, todo = {},
          cur = 0, cpc = (\<lambda>_. C_Lock1)(1 := C_Nudge, 0 := C_Wait), ctx_cancelled = (\<lambda>_. False),
          received = (\<lambda>_. None), returned = (\<lambda>_. None), heap = (\<lambda>_. None),
          next_ptr = 0, crashed = False\<rparr>"
  define s1 where
    "s1 = \<lparr>waitingScrapes = {1, 0}, waitingMtx = Some Worker, wpc = W_Send, result = 0,
          todo = {1, 0} - {0}, cur = 0, cpc = (\<lambda>_. C_Lock1)(1 := C_Wait, 0 := C_Lock2),
          ctx_cancelled = (\<lambda>_. False)(0 := True),
          received = (\<lambda>_. None), returned = (\<lambda>_. None),
          heap = (\<lambda>_. None)(0 := Some \<lparr>mfs = Some [1, 2], err = None\<rparr>),
          next_ptr = Suc 0, crashed = False\<rparr>"
  have e0: "run_schedule [WStep, CStep 0, CStep 0, CStep 1, CStep 1, CStep 0] newExecProxy = Some s0"
    by (simp add: s0_def newExecProxy_def step_def execProxy_execer_step_def execProxy_Scrape_step_def)
  then have s: "s = s0" using assms(1) by simp
  have e1: "run_schedule [CStep 1, WStep, WStep, WExec ?run, WStep, Cancel 0, CDone 0, WNext 0] s0
      = Some s1"
    by (simp add: s0_def s1_def step_def execProxy_execer_step_def execProxy_Scrape_step_def
        execProxy_execer_doExec_def execProxy_execer_range_def execProxy_Scrape_ctxDone_def doExec_def)
  have r: "run_schedule ls s1 = Some s'"
    using assms(2) unfolding s by (simp only: run_schedule_append e1 option.case)
  have inv0: "proxy_inv s0"
    using proxy_inv_run_schedule[OF proxy_inv_newExecProxy e0] .
  have inv1: "proxy_inv s1"
    using proxy_inv_run_schedule[OF inv0 e1] .
  have inv': "proxy_inv s'"
    using proxy_inv_run_schedule[OF inv1 r] .
  have d: "send_deadlock s1" by (simp add: send_deadlock_def s1_def)
  from send_deadlock_run_schedule[OF inv1 d r]
  have d': "send_deadlock s'" "cur s' = cur s1" "returned s' = returned s1"
    "waitingScrapes s' = waitingScrapes s1"
    by simp_all
  have np: "next_ptr s' = Suc 0"
    using send_deadlock_next_ptr[OF inv1 d r] by (simp add: s1_def)
  have hp: "heap s' 0 = Some \<lparr>mfs = Some [1, 2], err = None\<rparr>"
    using heap_run_schedule[OF r] by (simp add: s1_def)
  have w: "1 \<in> waitingScrapes s'" "returned s' 1 = None" "cur s' = 0"
    using d'(2,3,4) by (simp_all add: s1_def)
  have m: "waitingMtx s' = Some Worker" "wpc s' = W_Send" "cpc s' 0 = C_Lock2"
    using d'(1) w(3) by (simp_all add: send_deadlock_def)
  have rs: "received_struct s' 1" "timed_out_gone s' 1"
    using inv' by (simp_all add: proxy_inv_def waiter_inv_def)
  have rc: "received s' 1 = None"
  proof (cases "received s' 1")
    case None
    then show ?thesis .
  next
    case (Some p)
    with rs(1) w(2) show ?thesis by (simp add: received_struct_def)
  qed
  have nr: "cpc s' 1 \<noteq> C_Return"
    using rs(2) rc w(1) by (auto simp: timed_out_gone_def)
  have sr: "step (CRecv 1) s' = None"
    using w(3) by (simp add: step_def execProxy_Scrape_recv_def)
  have a: "wpc s = W_Lock1" "waitingScrapes s = {0, 1}" "\<not> ctx_cancelled s 0"
    "\<not> ctx_cancelled s 1" "next_ptr s = 0"
    unfolding s by (auto simp: s0_def)
  show ?thesis
    using a np hp w rc nr sr m by simp
qed

theorem waiter_starved_by_cancelled_Scrape_witness:
  "run_schedule [WStep, CStep 0, CStep 0, CStep 1, CStep 1, CStep 0] newExecProxy
   = Some \<lparr>waitingScrapes = {1, 0}, waitingMtx = None, wpc = W_Lock1, result = 0, todo = {},
          cur = 0, cpc = (\<lambda>_. C_Lock1)(1 := C_Nudge, 0 := C_Wait), ctx_cancelled = (\<lambda>_. False),
          received = (\<lambda>_. None), returned = (\<lambda>_. None), heap = (\<lambda>_. None),
          next_ptr = 0, crashed = False\<rparr>
   \<and> run_schedule
       ([CStep 1, WStep, WStep,
         WExec \<lparr>stdoutPipe_ret = None, start_ret = None,
                decodeMetrics_ret = (Some [1, 2], None), kill_ret = None\<rparr>,
         WStep, Cancel 0, CDone 0, WNext 0] @ [Cancel 1, CDone 1])
       \<lparr>waitingScrapes = {1, 0}, waitingMtx = None, wpc = W_Lock1, result = 0, todo = {},
          cur = 0, cpc = (\<lambda>_. C_Lock1)(1 := C_Nudge, 0 := C_Wait), ctx_cancelled = (\<lambda>_. False),
          received = (\<lambda>_. None), returned = (\<lambda>_. None), heap = (\<lambda>_. None),
          next_ptr = 0, crashed = False\<rparr>
     = Some \<lparr>waitingScrapes = {1, 0}, waitingMtx = Some Worker, wpc = W_Send, result = 0,
          todo = {1, 0} - {0}, cur = 0, cpc = (\<lambda>_. C_Lock1)(0 := C_Lock2, 1 := C_Lock2),
          ctx_cancelled = (\<lambda>_. False)(0 := True, 1 := True),
          received = (\<lambda>_. None), returned = (\<lambda>_. None),
          heap = (\<lambda>_. None)(0 := Some \<lparr>mfs = Some [1, 2], err = None\<rparr>),
          next_ptr = Suc 0, crashed = False\<rparr>
   \<and> step (CRecv 1) \<lparr>waitingScrapes = {1, 0}, waitingMtx = Some Worker, wpc = W_Send, result = 0,
          todo = {1, 0} - {0}, cur = 0, cpc = (\<lambda>_. C_Lock1)(0 := C_Lock2, 1 := C_Lock2),
          ctx_cancelled = (\<lambda>_. False)(0 := True, 1 := True),
          received = (\<lambda>_. None), returned = (\<lambda>_. None),
          heap = (\<lambda>_. None)(0 := Some \<lparr>mfs = Some [1, 2], err = None\<rparr>),
          next_ptr = Suc 0, crashed = False\<rparr> = None"
proof -
  let ?s = "\<lparr>waitingScrapes = {1, 0}, waitingMtx = None, wpc = W_Lock1, result = 0, todo = {},
          cur = 0, cpc = (\<lambda>_. C_Lock1)(1 := C_Nudge, 0 := C_Wait), ctx_cancelled = (\<lambda>_. False),
          received = (\<lambda>_. None), returned = (\<lambda>_. None), heap = (\<lambda>_. None),
          next_ptr = 0, crashed = False\<rparr>"
  let ?s' = "\<lparr>waitingScrapes = {1, 0}, waitingMtx = Some Worker, wpc = W_Send, result = 0,
          todo = {1, 0} - {0}, cur = 0, cpc = (\<lambda>_. C_Lock1)(0 := C_Lock2, 1 := C_Lock2),
          ctx_cancelled = (\<lambda>_. False)(0 := True, 1 := True),
          received = (\<lambda>_. None), returned = (\<lambda>_. None),
          heap = (\<lambda>_. None)(0 := Some \<lparr>mfs = Some [1, 2], err = None\<rparr>),
          next_ptr = Suc 0, crashed = False\<rparr>"
  have h1: "run_schedule [WStep, CStep 0, CStep 0, CStep 1, CStep 1, CStep 0] newExecProxy = Some ?s"
    by (simp add: newExecProxy_def step_def execProxy_execer_step_def execProxy_Scrape_step_def)
  have h2: "run_schedule
       ([CStep 1, WStep, WStep,
         WExec \<lparr>stdoutPipe_ret = None, start_ret = None,
                decodeMetrics_ret = (Some [1, 2], None), kill_ret = None\<rparr>,
         WStep, Cancel 0, CDone 0, WNext 0] @ [Cancel 1, CDone 1]) ?s = Some ?s'"
    by (simp add: step_def execProxy_execer_step_def execProxy_Scrape_step_def
        execProxy_execer_doExec_def execProxy_execer_range_def execProxy_Scrape_ctxDone_def doExec_def)
  from waiter_starved_by_cancelled_Scrape[OF h1 h2] have "step (CRecv 1) ?s' = None"
    by (elim conjE)
  then show ?thesis using h1 h2 by (intro conjI)
qed

text \<open>
  Claim C4. Registration does precede the nudge, and the nudge does not block
  (\<open>execProxy_Scrape_step\<close>). But \<open>execReqCh\<close> is unbuffered: a nudge is not kept pending, it is
  dropped whenever the worker is not parked in its receive. A caller that registers and
  nudges after the worker has replaced the map and before it is parked again is in the map
  with nobody woken to serve it. After the schedule below the worker is parked, caller 1
  waits in its \<open>select\<close> with a live context, and no step of the worker or of callers 0
  and 1 is possible: the only steps left are those of further calls of \<open>Scrape\<close> and the
  cancellation of a context.
\<close>

theorem dropped_nudge_lost_wakeup:
  assumes "run_schedule
             [WStep, CStep 0, CStep 0, CStep 0, WStep, WStep,
              WExec \<lparr>stdoutPipe_ret = None, start_ret = None,
                     decodeMetrics_ret = (Some [1, 2], None), kill_ret = None\<rparr>,
              WStep, WNext 0, CRecv 0, WStep,
              CStep 1, CStep 1, CStep 1, WStep] newExecProxy = Some s"
  shows "returned s 0 = Some (Some [1, 2], None) \<and>
         waitingScrapes s = {1} \<and> cpc s 1 = C_Wait \<and> returned s 1 = None \<and>
         \<not> ctx_cancelled s 1 \<and> wpc s = W_Recv \<and> waitingMtx s = None \<and>
         step WStep s = None \<and> (\<forall>run. step (WExec run) s = None) \<and>
         (\<forall>ch. step (WNext ch) s = None) \<and> (\<forall>i. step (CRecv i) s = None) \<and>
         (\<forall>i. step (CDone i) s = None) \<and> step (CStep 0) s = None \<and> step (CStep 1) s = None \<and>
         (\<forall>l. step l s \<noteq> None \<longrightarrow> (\<exists>i. l = Cancel i) \<or> (\<exists>i. l = CStep i \<and> 2 \<le> i))"
proof -
  let ?run = "\<lparr>stdoutPipe_ret = None, start_ret = None,
                     decodeMetrics_ret = (Some [1, 2], None), kill_ret = None\<rparr>"
  define t where
    "t = \<lparr>waitingScrapes = {1}, waitingMtx = None, wpc = W_Recv, result = 0, todo = {},
          cur = 0, cpc = (\<lambda>_. C_Lock1)(0 := C_Return, 1 := C_Wait), ctx_cancelled = (\<lambda>_. False),
          received = (\<lambda>_. None)(0 := Some 0),
          returned = (\<lambda>_. None)(0 := Some (Some [1, 2], None)),
          heap = (\<lambda>_. None)(0 := Some \<lparr>mfs = Some [1, 2], err = None\<rparr>),
          next_ptr = Suc 0, crashed = False\<rparr>"
  have "run_schedule
             [WStep, CStep 0, CStep 0, CStep 0, WStep, WStep, WExec ?run,
              WStep, WNext 0, CRecv 0, WStep,
              CStep 1, CStep 1, CStep 1, WStep] newExecProxy = Some t"
    by (simp add: t_def newExecProxy_def step_def execProxy_execer_step_def execProxy_Scrape_step_def
        execProxy_execer_doExec_def execProxy_execer_range_def execProxy_Scrape_recv_def doExec_def)
  then have st: "s = t" using assms by simp
  have only: "(\<exists>i. l = Cancel i) \<or> (\<exists>i. l = CStep i \<and> 2 \<le> i)" if "step l t \<noteq> None" for l
  proof (cases l)
    case (CStep i)
    then have "i \<noteq> 0 \<and> i \<noteq> 1"
      using that by (auto simp: t_def step_def execProxy_Scrape_step_def split: if_splits)
    then show ?thesis using CStep by auto
  qed (use that in \<open>simp_all add: t_def step_def execProxy_execer_step_def execProxy_execer_doExec_def
        execProxy_execer_range_def execProxy_Scrape_recv_def execProxy_Scrape_ctxDone_def\<close>)
  have "returned t 0 = Some (Some [1, 2], None) \<and>
         waitingScrapes t = {1} \<and> cpc t 1 = C_Wait \<and> returned t 1 = None \<and>
         \<not> ctx_cancelled t 1 \<and> wpc t = W_Recv \<and> waitingMtx t = None \<and>
         step WStep t = None \<and> (\<forall>run. step (WExec run) t = None) \<and>
         (\<forall>ch. step (WNext ch) t = None) \<and> (\<forall>i. step (CRecv i) t = None) \<and>
         (\<forall>i. step (CDone i) t = None) \<and> step (CStep 0) t = None \<and> step (CStep 1) t = None"
    by (simp add: t_def step_def execProxy_execer_step_def execProxy_Scrape_step_def
        execProxy_execer_doExec_def execProxy_execer_range_def execProxy_Scrape_recv_def execProxy_Scrape_ctxDone_def)
  then show ?thesis using only st by blast
qed

theorem dropped_nudge_lost_wakeup_witness:
  "run_schedule
     [WStep, CStep 0, CStep 0, CStep 0, WStep, WStep,
      WExec \<lparr>stdoutPipe_ret = None, start_ret = None,
             decodeMetrics_ret = (Some [1, 2], None), kill_ret = None\<rparr>,
      WStep, WNext 0, CRecv 0, WStep,
      CStep 1, CStep 1, CStep 1, WStep] newExecProxy
   = Some \<lparr>waitingScrapes = {1}, waitingMtx = None, wpc = W_Recv, result = 0, todo = {},
          cur = 0, cpc = (\<lambda>_. C_Lock1)(0 := C_Return, 1 := C_Wait), ctx_cancelled = (\<lambda>_. False),
          received = (\<lambda>_. None)(0 := Some 0),
          returned = (\<lambda>_. None)(0 := Some (Some [1, 2], None)),
          heap = (\<lambda>_. None)(0 := Some \<lparr>mfs = Some [1, 2], err = None\<rparr>),
          next_ptr = Suc 0, crashed = False\<rparr>
   \<and> step WStep \<lparr>waitingScrapes = {1}, waitingMtx = None, wpc = W_Recv, result = 0, todo = {},
          cur = 0, cpc = (\<lambda>_. C_Lock1)(0 := C_Return, 1 := C_Wait), ctx_cancelled = (\<lambda>_. False),
          received = (\<lambda>_. None)(0 := Some 0),
          returned = (\<lambda>_. None)(0 := Some (Some [1, 2], None)),
          heap = (\<lambda>_. None)(0 := Some \<lparr>mfs = Some [1, 2], err = None\<rparr>),
          next_ptr = Suc 0, crashed = False\<rparr> = None
   \<and> step (CRecv 1) \<lparr>waitingScrapes = {1}, waitingMtx = None, wpc = W_Recv, result = 0, todo = {},
          cur = 0, cpc = (\<lambda>_. C_Lock1)(0 := C_Return, 1 := C_Wait), ctx_cancelled = (\<lambda>_. False),
          received = (\<lambda>_. None)(0 := Some 0),
          returned = (\<lambda>_. None)(0 := Some (Some [1, 2], None)),
          heap = (\<lambda>_. None)(0 := Some \<lparr>mfs = Some [1, 2], err = None\<rparr>),
          next_ptr = Suc 0, crashed = False\<rparr> = None"
proof -
  let ?t = "\<lparr>waitingScrapes = {1}, waitingMtx = None, wpc = W_Recv, result = 0, todo = {},
          cur = 0, cpc = (\<lambda>_. C_Lock1)(0 := C_Return, 1 := C_Wait), ctx_cancelled = (\<lambda>_. False),
          received = (\<lambda>_. None)(0 := Some 0),
          returned = (\<lambda>_. None)(0 := Some (Some [1, 2], None)),
          heap = (\<lambda>_. None)(0 := Some \<lparr>mfs = Some [1, 2], err = None\<rparr>),
          next_ptr = Suc 0, crashed = False\<rparr>"
  have h: "run_schedule
     [WStep, CStep 0, CStep 0, CStep 0, WStep, WStep,
      WExec \<lparr>stdoutPipe_ret = None, start_ret = None,
             decodeMetrics_ret = (Some [1, 2], None), kill_ret = None\<rparr>,
      WStep, WNext 0, CRecv 0, WStep,
      CStep 1, CStep 1, CStep 1, WStep] newExecProxy = Some ?t"
    by (simp add: newExecProxy_def step_def execProxy_execer_step_def execProxy_Scrape_step_def
        execProxy_execer_doExec_def execProxy_execer_range_def execProxy_Scrape_recv_def doExec_def)
  from dropped_nudge_lost_wakeup[OF h] have "step WStep ?t = None" "step (CRecv 1) ?t = None"
    by blast+
  then show ?thesis using h by simp
qed

end
